theory Spec2Isabelle
  imports Main "HOL-Library.Multiset" "HOL-Library.Char_ord" "HOL-Library.List_Lexorder"
begin

section \<open>LeviathanMapper: data model\<close>

text \<open>
  The program is one Go file, \<^verbatim>\<open>LeviathanMapper.go\<close>. Its process-wide variables
  become fields of an explicit state; the functions that touch them take the state and
  return it updated. Strings are Go strings, that is byte sequences.
\<close>

type_synonym go_error = string

text \<open>
  A JSON value as \<^verbatim>\<open>encoding/json\<close> stores it into an \<^verbatim>\<open>interface{}\<close>:
  \<^verbatim>\<open>nil\<close>, \<^verbatim>\<open>bool\<close>, \<^verbatim>\<open>float64\<close>, \<^verbatim>\<open>string\<close>,
  \<^verbatim>\<open>[]interface{}\<close> and \<^verbatim>\<open>map[string]interface{}\<close>. The program never computes
  with a number; it can only print one, so \<open>VFloat64\<close> carries the text that the verb
  \<^verbatim>\<open>%v\<close> prints for it. \<open>VMap\<close> lists the members of the JSON object in the order of
  the text; a later member overwrites an earlier one with the same key (see \<open>lookup\<close>).
\<close>

datatype go_value =
    VNil
  | VBool bool
  | VFloat64 string
  | VString string
  | VSlice "go_value list"
  | VMap "(string \<times> go_value) list"

text \<open>
  \<^verbatim>\<open>*http.Response\<close>: the status code, and the body as the decoder will see it:
  the first JSON value of the stream, or \<open>None\<close> when the stream does not start with a
  JSON value (syntax error, empty body, read error).
\<close>

record response =
  StatusCode :: int
  Body :: "go_value option"

text \<open>
  What one call \<^verbatim>\<open>httpClient.Do(req)\<close> returns: a transport error (and no usable
  response), or a response and a nil error.
\<close>

datatype attempt = Failed go_error | Responded response

datatype source = CrtSh | SecurityTrails | Shodan | VirusTotal

text \<open>What an adapter goroutine does, one entry per observable step, in program order.\<close>

datatype action =
    HttpDo nat
  | Sleep
  | Println string
  | AddSubdomain string
  | NilDeref
  | WgDone

datatype netop = Dial string | Request source nat

text \<open>
  The globals: \<^verbatim>\<open>uniqueSubs\<close> (a \<^verbatim>\<open>map[string]struct{}\<close>), the wait group's
  counter, and the two output channels of the process, standard output and the network.
\<close>

record state =
  uniqueSubs :: "string \<rightharpoonup> unit"
  wg :: int
  stdout :: "string list"
  network :: "netop list"

definition initial :: state where
  "initial = \<lparr>uniqueSubs = Map.empty, wg = 0, stdout = [], network = []\<rparr>"

definition defaultTimeout :: nat where
  "defaultTimeout = 5"

definition retryLimit :: nat where
  "retryLimit = 3"

definition println :: "string \<Rightarrow> state \<Rightarrow> state" where
  "println l st = st\<lparr>stdout := stdout st @ [l]\<rparr>"

section \<open>The aggregator\<close>

text \<open>
  \<^verbatim>\<open>
  func containsWildcard(subdomain string) bool {
      return len(subdomain) > 0 && subdomain[0] == '*'
  }
  \<close>
\<close>

definition containsWildcard :: "string \<Rightarrow> bool" where
  "containsWildcard subdomain \<longleftrightarrow> length subdomain > 0 \<and> subdomain ! 0 = CHR ''*''"

text \<open>
  \<^verbatim>\<open>
  func addSubdomain(subdomain string) {
      mu.Lock()
      defer mu.Unlock()
      if containsWildcard(subdomain) {
          fmt.Println("Ignoring subdomain with wildcard:", subdomain)
          return
      }
      if _, exists := uniqueSubs[subdomain]; !exists {
          uniqueSubs[subdomain] = struct{}{}
          fmt.Println("Subdomain found:", subdomain)
      }
  }
  \<close>
  The mutex is held for the whole body, so a call is one atomic step on the state.
\<close>

definition addSubdomain :: "string \<Rightarrow> state \<Rightarrow> state" where
  "addSubdomain subdomain st =
     (if containsWildcard subdomain
      then println (''Ignoring subdomain with wildcard: '' @ subdomain) st
      else if uniqueSubs st subdomain = None
      then println (''Subdomain found: '' @ subdomain)
             (st\<lparr>uniqueSubs := (uniqueSubs st)(subdomain \<mapsto> ())\<rparr>)
      else st)"

text \<open>The calls of a run, in the order in which they take the lock.\<close>

fun recordAll :: "string list \<Rightarrow> state \<Rightarrow> state" where
  "recordAll [] st = st"
| "recordAll (x # xs) st = recordAll xs (addSubdomain x st)"

text \<open>
  \<^verbatim>\<open>
  func printAllSubdomains() {
      fmt.Println("\n=== Unique Subdomains Found ===")
      for subdomain := range uniqueSubs {
          fmt.Println(subdomain)
      }
      fmt.Println("==============================")
  }
  \<close>
  Go leaves the order of a \<^verbatim>\<open>range\<close> over a map to the runtime: it visits every key
  once, in an order of its choosing. \<open>rangeOrder m ks\<close> says that \<open>ks\<close> is such an
  order for the map \<open>m\<close>; the model takes the order chosen as an argument.
\<close>

definition rangeOrder :: "(string \<rightharpoonup> unit) \<Rightarrow> string list \<Rightarrow> bool" where
  "rangeOrder m ks \<longleftrightarrow> distinct ks \<and> set ks = dom m"

definition listing :: "string list \<Rightarrow> string list" where
  "listing ks = ['''', ''=== Unique Subdomains Found ===''] @ ks @ [''=============================='']"

definition printAllSubdomains :: "string list \<Rightarrow> state \<Rightarrow> state" where
  "printAllSubdomains ks st = st\<lparr>stdout := stdout st @ listing ks\<rparr>"

section \<open>The retrying fetcher\<close>

text \<open>
  \<^verbatim>\<open>
  func fetchWithRetries(req *http.Request) (*http.Response, error) {
      var resp *http.Response
      var err error
      for i := 0; i < retryLimit; i++ {
          resp, err = httpClient.Do(req)
          if err == nil && resp.StatusCode == 200 {
              return resp, nil
          }
          time.Sleep(retryDelay)
      }
      return nil, err
  }
  \<close>
  \<open>do i\<close> is what the \<open>i\<close>-th call of \<^verbatim>\<open>httpClient.Do\<close> returns. The loop carries
  the variable \<^verbatim>\<open>err\<close> and the steps taken so far; the result is Go's pair
  \<^verbatim>\<open>(resp, err)\<close>, each component \<open>None\<close> for \<^verbatim>\<open>nil\<close>, with the steps taken.
\<close>

function fetchLoop ::
  "(nat \<Rightarrow> attempt) \<Rightarrow> nat \<Rightarrow> go_error option \<Rightarrow> action list
     \<Rightarrow> (response option \<times> go_error option) \<times> action list" where
  "fetchLoop do i err tr =
     (if i < retryLimit
      then (case do i of
              Failed e \<Rightarrow> fetchLoop do (Suc i) (Some e) (tr @ [HttpDo i, Sleep])
            | Responded resp \<Rightarrow>
                if StatusCode resp = 200 then ((Some resp, None), tr @ [HttpDo i])
                else fetchLoop do (Suc i) None (tr @ [HttpDo i, Sleep]))
      else ((None, err), tr))"
  by pat_completeness auto
termination
  by (relation "measure (\<lambda>(do, i, err, tr). retryLimit - i)") auto

declare fetchLoop.simps [simp del]

definition fetchWithRetries ::
  "(nat \<Rightarrow> attempt) \<Rightarrow> (response option \<times> go_error option) \<times> action list" where
  "fetchWithRetries do = fetchLoop do 0 None []"

section \<open>Decoding and formatting\<close>

text \<open>
  \<^verbatim>\<open>m[key]\<close> on a decoded object: the decoder stores the members in the order of the
  text, so the last member with the key is the one found.
\<close>

definition lookup :: "(string \<times> go_value) list \<Rightarrow> string \<Rightarrow> go_value option" where
  "lookup kvs k = map_of (rev kvs) k"

text \<open>
  \<^verbatim>\<open>json.NewDecoder(resp.Body).Decode(&results)\<close> with
  \<^verbatim>\<open>results []map[string]interface{}\<close>: an error (\<open>None\<close>) unless the value is
  \<^verbatim>\<open>null\<close> (the slice stays nil) or an array whose elements are objects or
  \<^verbatim>\<open>null\<close> (a nil map, which reads as an empty one).
\<close>

fun decodeRecord :: "go_value \<Rightarrow> (string \<times> go_value) list option" where
  "decodeRecord VNil = Some []"
| "decodeRecord (VMap kvs) = Some kvs"
| "decodeRecord _ = None"

fun decodeAll :: "go_value list \<Rightarrow> (string \<times> go_value) list list option" where
  "decodeAll [] = Some []"
| "decodeAll (v # vs) =
     (case decodeRecord v of
        None \<Rightarrow> None
      | Some m \<Rightarrow> (case decodeAll vs of None \<Rightarrow> None | Some ms \<Rightarrow> Some (m # ms)))"

fun decodeRecords :: "go_value option \<Rightarrow> (string \<times> go_value) list list option" where
  "decodeRecords None = None"
| "decodeRecords (Some VNil) = Some []"
| "decodeRecords (Some (VSlice vs)) = decodeAll vs"
| "decodeRecords (Some _) = None"

text \<open>The same call with \<^verbatim>\<open>result map[string]interface{}\<close>.\<close>

fun decodeObject :: "go_value option \<Rightarrow> (string \<times> go_value) list option" where
  "decodeObject None = None"
| "decodeObject (Some v) = decodeRecord v"

text \<open>
  The verb \<^verbatim>\<open>%s\<close> of package \<^verbatim>\<open>fmt\<close> on an \<^verbatim>\<open>interface{}\<close> operand. A string
  prints as it is; a value that is no string prints as a bad verb; a slice prints its
  elements between brackets and a map its entries, sorted by key.
\<close>

fun joinSpace :: "string list \<Rightarrow> string" where
  "joinSpace [] = []"
| "joinSpace [x] = x"
| "joinSpace (x # y # zs) = x @ '' '' @ joinSpace (y # zs)"

fun lastWins :: "(string \<times> 'a) list \<Rightarrow> (string \<times> 'a) list" where
  "lastWins [] = []"
| "lastWins (kv # kvs) = (if fst kv \<in> fst ` set kvs then lastWins kvs else kv # lastWins kvs)"

definition mapEntries :: "(string \<times> 'a) list \<Rightarrow> (string \<times> 'a) list" where
  "mapEntries kvs = sort_key fst (lastWins kvs)"

fun printValue :: "go_value \<Rightarrow> string" where
  "printValue VNil = ''<nil>''"
| "printValue (VBool b) = ''%!s(bool='' @ (if b then ''true'' else ''false'') @ '')''"
| "printValue (VFloat64 r) = ''%!s(float64='' @ r @ '')''"
| "printValue (VString s) = s"
| "printValue (VSlice vs) = ''['' @ joinSpace (map printValue vs) @ '']''"
| "printValue (VMap kvs) =
     ''map['' @ joinSpace (map (\<lambda>kv. fst kv @ '':'' @ snd kv)
                 (mapEntries (map (\<lambda>kv. (fst kv, printValue (snd kv))) kvs))) @ '']''"

fun sprintf_s :: "go_value \<Rightarrow> string" where
  "sprintf_s VNil = ''%!s(<nil>)''"
| "sprintf_s v = printValue v"

section \<open>The source adapters\<close>

text \<open>
  Each adapter is a goroutine. Its model is the list of its steps, given the target
  domain, its API key and what its calls of \<^verbatim>\<open>httpClient.Do\<close> return. The deferred
  \<^verbatim>\<open>wg.Done()\<close> is the last step of every return.

  The adapters discard the error of \<^verbatim>\<open>http.NewRequest\<close> (\<^verbatim>\<open>req, _ :=\<close>). The model
  covers the target domains for which the request is built, every host name among
  them. For another domain (one with a control character, for instance) the program
  goes on with a nil request and panics on it before any fetch. The model does not
  follow that path: what is proved below of an adapter that fetches, or of a run in
  which one does, is proved for the domains for which its request is built.

  \<^verbatim>\<open>fetchWithRetries\<close> can return \<^verbatim>\<open>(nil, nil)\<close>. The adapter then passes the test
  \<^verbatim>\<open>err != nil\<close> and evaluates \<^verbatim>\<open>resp.Body\<close> on a nil pointer in
  \<^verbatim>\<open>defer resp.Body.Close()\<close>: a run-time panic, which no one recovers. The step
  \<open>NilDeref\<close> stands for the panic and for the unwinding of the goroutine, in which
  the deferred \<^verbatim>\<open>wg.Done()\<close> still runs; it is the last step of the adapter. The
  run-time then prints the panic and ends the whole process with status 2.

  \<^verbatim>\<open>
  func fetchFromCrtSh(domain string) {
      defer wg.Done()
      url := fmt.Sprintf("https://crt.sh/?q=%%25.%s&output=json", domain)
      req, _ := http.NewRequest("GET", url, nil)
      resp, err := fetchWithRetries(req)
      if err != nil {
          fmt.Println("Error querying Crt.sh:", err)
          return
      }
      defer resp.Body.Close()
      var results []map[string]interface{}
      if err := json.NewDecoder(resp.Body).Decode(&results); err == nil {
          for _, entry := range results {
              if subdomain, ok := entry["name_value"].(string); ok {
                  addSubdomain(subdomain)
              }
          }
      }
  }
  \<close>
\<close>

text \<open>The part that the four adapters share: the fetch, the error test, the nil response.\<close>

definition fetchThen ::
  "string \<Rightarrow> (nat \<Rightarrow> attempt) \<Rightarrow> (go_value option \<Rightarrow> string list) \<Rightarrow> action list" where
  "fetchThen name do parse =
     (case fetchWithRetries do of
        ((_, Some err), tr) \<Rightarrow> tr @ [Println (''Error querying '' @ name @ '': '' @ err), WgDone]
      | ((None, None), tr) \<Rightarrow> tr @ [NilDeref]
      | ((Some resp, None), tr) \<Rightarrow> tr @ map AddSubdomain (parse (Body resp)) @ [WgDone])"

fun nameValue :: "(string \<times> go_value) list \<Rightarrow> string list" where
  "nameValue entry =
     (case lookup entry ''name_value'' of Some (VString subdomain) \<Rightarrow> [subdomain] | _ \<Rightarrow> [])"

definition parseCrtSh :: "go_value option \<Rightarrow> string list" where
  "parseCrtSh body =
     (case decodeRecords body of
        None \<Rightarrow> []
      | Some results \<Rightarrow> concat (map nameValue results))"

definition fetchFromCrtSh :: "string \<Rightarrow> (nat \<Rightarrow> attempt) \<Rightarrow> action list" where
  "fetchFromCrtSh domain do = fetchThen ''Crt.sh'' do parseCrtSh"

text \<open>
  \<^verbatim>\<open>
  func fetchFromSecurityTrails(domain string) {
      defer wg.Done()
      if apiKeySecurityTrails == "" {
          fmt.Println("SecurityTrails not configured. Skipping results.")
          return
      }
      ...
      resp, err := fetchWithRetries(req)
      if err != nil {
          fmt.Println("Error querying SecurityTrails:", err)
          return
      }
      defer resp.Body.Close()
      var result map[string]interface{}
      if err := json.NewDecoder(resp.Body).Decode(&result); err == nil {
          if subs, found := result["subdomains"].([]interface{}); found {
              for _, sub := range subs {
                  addSubdomain(fmt.Sprintf("%s.%s", sub, domain))
              }
          }
      }
  }
  \<close>
  \<^verbatim>\<open>fetchFromShodan\<close> is the same function with Shodan's key, URL and name.
\<close>

definition parseLabels :: "string \<Rightarrow> go_value option \<Rightarrow> string list" where
  "parseLabels domain body =
     (case decodeObject body of
        None \<Rightarrow> []
      | Some result \<Rightarrow>
          (case lookup result ''subdomains'' of
             Some (VSlice subs) \<Rightarrow> map (\<lambda>sub. sprintf_s sub @ ''.'' @ domain) subs
           | _ \<Rightarrow> []))"

definition fetchFromSecurityTrails ::
  "string \<Rightarrow> string \<Rightarrow> (nat \<Rightarrow> attempt) \<Rightarrow> action list" where
  "fetchFromSecurityTrails apiKey domain do =
     (if apiKey = []
      then [Println ''SecurityTrails not configured. Skipping results.'', WgDone]
      else fetchThen ''SecurityTrails'' do (parseLabels domain))"

definition fetchFromShodan ::
  "string \<Rightarrow> string \<Rightarrow> (nat \<Rightarrow> attempt) \<Rightarrow> action list" where
  "fetchFromShodan apiKey domain do =
     (if apiKey = []
      then [Println ''Shodan not configured. Skipping results.'', WgDone]
      else fetchThen ''Shodan'' do (parseLabels domain))"

text \<open>
  \<^verbatim>\<open>
  func fetchFromVirusTotal(domain string) {
      ...
      var result map[string]interface{}
      if err := json.NewDecoder(resp.Body).Decode(&result); err == nil {
          if data, found := result["data"].([]interface{}); found {
              for _, entry := range data {
                  if subdomain, ok := entry.(string); ok {
                      addSubdomain(subdomain)
                  }
              }
          }
      }
  }
  \<close>
\<close>

fun asString :: "go_value \<Rightarrow> string list" where
  "asString (VString subdomain) = [subdomain]"
| "asString _ = []"

definition parseData :: "go_value option \<Rightarrow> string list" where
  "parseData body =
     (case decodeObject body of
        None \<Rightarrow> []
      | Some result \<Rightarrow>
          (case lookup result ''data'' of
             Some (VSlice data) \<Rightarrow> concat (map asString data)
           | _ \<Rightarrow> []))"

definition fetchFromVirusTotal ::
  "string \<Rightarrow> string \<Rightarrow> (nat \<Rightarrow> attempt) \<Rightarrow> action list" where
  "fetchFromVirusTotal apiKey domain do =
     (if apiKey = []
      then [Println ''VirusTotal not configured. Skipping results.'', WgDone]
      else fetchThen ''VirusTotal'' do parseData)"

section \<open>Configuration and the run\<close>

text \<open>
  The flags and the environment variables that \<^verbatim>\<open>main\<close> and the package
  initialisation read. (The flag \<^verbatim>\<open>-concurrency\<close> only sizes a channel that is
  never written or read.)
\<close>

record config =
  domain :: string
  proxyURL :: string
  apiKeySecurityTrails :: string
  apiKeyShodan :: string
  apiKeyVirusTotal :: string

text \<open>
  The world outside the process: \<^verbatim>\<open>url.Parse\<close> (an error, or the host of the URL),
  \<^verbatim>\<open>net.DialTimeout\<close> on a host (an error, or a connection), and what the calls of
  \<^verbatim>\<open>httpClient.Do\<close> of each adapter return.
\<close>

record env =
  urlParse :: "string \<Rightarrow> go_error + string"
  dialTimeout :: "string \<Rightarrow> go_error option"
  httpDo :: "source \<Rightarrow> nat \<Rightarrow> attempt"

record client =
  Timeout :: nat
  Proxy :: "string option"

text \<open>
  \<^verbatim>\<open>
  func configureHTTPClient() {
      transport := &http.Transport{}
      if proxyURL != "" {
          proxy, err := url.Parse(proxyURL)
          if err != nil {
              fmt.Println("Error in proxy format:", err)
              os.Exit(1)
          }
          conn, err := net.DialTimeout("tcp", proxy.Host, defaultTimeout)
          if err != nil {
              fmt.Println("Error connecting to the proxy:", err)
              os.Exit(1)
          }
          conn.Close()
          transport.Proxy = http.ProxyURL(proxy)
          fmt.Println("Proxy configured:", proxyURL)
      }
      httpClient = &http.Client{Timeout: defaultTimeout, Transport: transport}
  }
  \<close>
  The result is the exit status (\<open>Inl\<close>) when the function ends the process, the client
  otherwise.
\<close>

definition configureHTTPClient :: "env \<Rightarrow> string \<Rightarrow> state \<Rightarrow> (nat + client) \<times> state" where
  "configureHTTPClient e proxy st =
     (if proxy \<noteq> []
      then (case urlParse e proxy of
              Inl err \<Rightarrow> (Inl 1, println (''Error in proxy format: '' @ err) st)
            | Inr host \<Rightarrow>
                (let st' = st\<lparr>network := network st @ [Dial host]\<rparr>
                 in case dialTimeout e host of
                      Some err \<Rightarrow> (Inl 1, println (''Error connecting to the proxy: '' @ err) st')
                    | None \<Rightarrow>
                        (Inr \<lparr>Timeout = defaultTimeout, Proxy = Some proxy\<rparr>,
                         println (''Proxy configured: '' @ proxy) st')))
      else (Inr \<lparr>Timeout = defaultTimeout, Proxy = None\<rparr>, st))"

text \<open>
  The four goroutines run concurrently. Every step of the model is atomic (a call of
  \<^verbatim>\<open>addSubdomain\<close> by its mutex), so a run is an interleaving of the four step lists.
  The scheduler's choices are a list of sources: the source named moves next, if it has
  a step left; when the list ends, the goroutines finish one after the other.
\<close>

definition tag :: "source \<Rightarrow> action list \<Rightarrow> (source \<times> action) list" where
  "tag src as = map (Pair src) as"

fun interleave :: "source list \<Rightarrow> (source \<Rightarrow> action list) \<Rightarrow> (source \<times> action) list" where
  "interleave [] q =
     tag CrtSh (q CrtSh) @ tag SecurityTrails (q SecurityTrails)
       @ tag Shodan (q Shodan) @ tag VirusTotal (q VirusTotal)"
| "interleave (s # ss) q =
     (case q s of
        [] \<Rightarrow> interleave ss q
      | a # as \<Rightarrow> (s, a) # interleave ss (q(s := as)))"

fun step :: "source \<Rightarrow> action \<Rightarrow> state \<Rightarrow> state" where
  "step src (HttpDo i) st = st\<lparr>network := network st @ [Request src i]\<rparr>"
| "step src Sleep st = st"
| "step src (Println l) st = println l st"
| "step src (AddSubdomain subdomain) st = addSubdomain subdomain st"
| "step src NilDeref st = st"
| "step src WgDone st = st\<lparr>wg := wg st - 1\<rparr>"

text \<open>
  Running the steps. A panic of any goroutine ends the process: the result is \<open>Inl\<close>
  with the state at the panic; \<open>Inr\<close> when every step has been taken. Between the
  panic and the exit the other goroutines run on, and so does \<^verbatim>\<open>main\<close> once the
  counter of the wait group is zero: in the program the output of a crashed run can
  go on after the state given here, as far as the whole listing. Of a crashed run the
  theorems below state the ending only, or a property that every further step keeps
  (lemma \<open>step_no_wildcard\<close>).
\<close>

fun exec :: "(source \<times> action) list \<Rightarrow> state \<Rightarrow> state + state" where
  "exec [] st = Inr st"
| "exec ((src, a) # rest) st = (if a = NilDeref then Inl st else exec rest (step src a st))"

definition adapters :: "config \<Rightarrow> env \<Rightarrow> source \<Rightarrow> action list" where
  "adapters cfg e src =
     (case src of
        CrtSh \<Rightarrow> fetchFromCrtSh (domain cfg) (httpDo e CrtSh)
      | SecurityTrails \<Rightarrow>
          fetchFromSecurityTrails (apiKeySecurityTrails cfg) (domain cfg) (httpDo e SecurityTrails)
      | Shodan \<Rightarrow> fetchFromShodan (apiKeyShodan cfg) (domain cfg) (httpDo e Shodan)
      | VirusTotal \<Rightarrow>
          fetchFromVirusTotal (apiKeyVirusTotal cfg) (domain cfg) (httpDo e VirusTotal))"

text \<open>
  \<^verbatim>\<open>
  func main() {
      ...
      if *domain == "" {
          fmt.Println("Usage: go run main.go -domain example.com")
          return
      }
      concurrency = *concurrencyFlag
      proxyURL = *proxyFlag
      configureHTTPClient()
      subdomainChan = make(chan string, concurrency)
      wg.Add(4)
      go fetchFromCrtSh(*domain)
      go fetchFromSecurityTrails(*domain)
      go fetchFromShodan(*domain)
      go fetchFromVirusTotal(*domain)
      wg.Wait()
      close(subdomainChan)
      printAllSubdomains()
  }
  \<close>
  How the process ends: after the usage line, by \<^verbatim>\<open>os.Exit\<close>, by a panic, blocked in
  \<^verbatim>\<open>wg.Wait()\<close> with no goroutine left, or after the listing.
\<close>

datatype ending = Usage | Exited nat | Crashed | Deadlock | Completed

fun exitStatus :: "ending \<Rightarrow> nat" where
  "exitStatus Usage = 0"
| "exitStatus (Exited n) = n"
| "exitStatus Crashed = 2"
| "exitStatus Deadlock = 2"
| "exitStatus Completed = 0"

definition main :: "config \<Rightarrow> env \<Rightarrow> source list \<Rightarrow> string list \<Rightarrow> ending \<times> state" where
  "main cfg e sched ks =
     (if domain cfg = []
      then (Usage, println ''Usage: go run main.go -domain example.com'' initial)
      else (case configureHTTPClient e (proxyURL cfg) initial of
              (Inl status, st) \<Rightarrow> (Exited status, st)
            | (Inr cl, st) \<Rightarrow>
                (case exec (interleave sched (adapters cfg e)) (st\<lparr>wg := wg st + 4\<rparr>) of
                   Inl st' \<Rightarrow> (Crashed, st')
                 | Inr st' \<Rightarrow>
                     if wg st' = 0 then (Completed, printAllSubdomains ks st')
                     else (Deadlock, st'))))"

section \<open>Observations on a list of steps\<close>

text \<open>The test of the retry loop: \<^verbatim>\<open>err == nil && resp.StatusCode == 200\<close>.\<close>

fun success :: "attempt \<Rightarrow> bool" where
  "success (Failed e) = False"
| "success (Responded resp) = (StatusCode resp = 200)"

text \<open>The attempts made, the strings passed to \<^verbatim>\<open>addSubdomain\<close>.\<close>

fun requests :: "action list \<Rightarrow> nat list" where
  "requests [] = []"
| "requests (HttpDo i # as) = i # requests as"
| "requests (a # as) = requests as"

fun findings :: "action list \<Rightarrow> string list" where
  "findings [] = []"
| "findings (AddSubdomain subdomain # as) = subdomain # findings as"
| "findings (a # as) = findings as"

text \<open>
  The value of the variable \<^verbatim>\<open>err\<close> after an attempt, and the steps of the failed
  attempts \<open>i\<close> to \<open>k - 1\<close>: a call and a sleep each.
\<close>

fun errOf :: "attempt \<Rightarrow> go_error option" where
  "errOf (Failed e) = Some e"
| "errOf (Responded resp) = None"

definition rounds :: "nat \<Rightarrow> nat \<Rightarrow> action list" where
  "rounds i k = concat (map (\<lambda>j. [HttpDo j, Sleep]) [i..<k])"

text \<open>The adapters that \<^verbatim>\<open>main\<close> starts without their API key.\<close>

fun disabled :: "config \<Rightarrow> source \<Rightarrow> bool" where
  "disabled cfg CrtSh = False"
| "disabled cfg SecurityTrails = (apiKeySecurityTrails cfg = [])"
| "disabled cfg Shodan = (apiKeyShodan cfg = [])"
| "disabled cfg VirusTotal = (apiKeyVirusTotal cfg = [])"


fun announced :: "string list \<Rightarrow> string list" where
  "announced [] = []"
| "announced (l # ls) =
     (if take 17 l = ''Subdomain found: '' then drop 17 l # announced ls else announced ls)"

text \<open>
  The interleavings of the four step lists, stated on their own: a goroutine that has
  a step left takes it, until none has. \<open>interleave\<close> produces them all, and nothing
  else (lemmas \<open>interleave_sound\<close> and \<open>interleave_complete\<close>).
\<close>

inductive interleaving :: "(source \<Rightarrow> action list) \<Rightarrow> (source \<times> action) list \<Rightarrow> bool" where
  finished: "(\<And>src. q src = []) \<Longrightarrow> interleaving q []"
| move: "q s = a # as \<Longrightarrow> interleaving (q(s := as)) L \<Longrightarrow> interleaving q ((s, a) # L)"

section \<open>Lemmas on the aggregator\<close>

lemma uniqueSubs_println [simp]: "uniqueSubs (println l st) = uniqueSubs st"
  by (simp add: println_def)

lemma wg_println [simp]: "wg (println l st) = wg st"
  by (simp add: println_def)

lemma wg_addSubdomain [simp]: "wg (addSubdomain s st) = wg st"
  by (simp add: addSubdomain_def)

lemma uniqueSubs_addSubdomain:
  "uniqueSubs (addSubdomain s st) =
     (if containsWildcard s then uniqueSubs st else (uniqueSubs st)(s \<mapsto> ()))"
  by (auto simp: addSubdomain_def fun_eq_iff)

lemma dom_addSubdomain:
  "dom (uniqueSubs (addSubdomain s st)) =
     (if containsWildcard s then dom (uniqueSubs st) else insert s (dom (uniqueSubs st)))"
  by (simp add: uniqueSubs_addSubdomain)

lemma dom_recordAll:
  "dom (uniqueSubs (recordAll xs st)) =
     dom (uniqueSubs st) \<union> {x \<in> set xs. \<not> containsWildcard x}"
  by (induction xs arbitrary: st) (auto simp: dom_addSubdomain)

lemma count_found_addSubdomain:
  "count_list (stdout (addSubdomain x st)) (''Subdomain found: '' @ s) =
     count_list (stdout st) (''Subdomain found: '' @ s)
       + (if x = s \<and> \<not> containsWildcard s \<and> uniqueSubs st s = None then 1 else 0)"
  by (auto simp: addSubdomain_def println_def)

lemma count_found_recordAll:
  "count_list (stdout (recordAll xs st)) (''Subdomain found: '' @ s) =
     count_list (stdout st) (''Subdomain found: '' @ s)
       + (if s \<in> set xs \<and> \<not> containsWildcard s \<and> uniqueSubs st s = None then 1 else 0)"
proof (induction xs arbitrary: st)
  case Nil
  then show ?case by simp
next
  case (Cons x xs)
  show ?case
    unfolding recordAll.simps Cons.IH count_found_addSubdomain
    by (auto simp: uniqueSubs_addSubdomain)
qed

section \<open>Lemmas on interleavings and runs\<close>

lemma mset_tag [simp]: "image_mset snd (mset (tag src as)) = mset as"
  by (simp add: tag_def multiset.map_comp comp_def)

text \<open>Whatever the scheduler does, the steps taken are the steps of the four goroutines.\<close>

lemma mset_interleave:
  "image_mset snd (mset (interleave sched q)) =
     mset (q CrtSh) + mset (q SecurityTrails) + mset (q Shodan) + mset (q VirusTotal)"
proof (induction sched arbitrary: q)
  case Nil
  show ?case by simp
next
  case (Cons s ss)
  show ?case
  proof (cases "q s")
    case Nil
    then show ?thesis using Cons.IH [of q] by simp
  next
    case (Cons a as)
    let ?q = "q(s := as)"
    have "image_mset snd (mset (interleave (s # ss) q)) =
            add_mset a (image_mset snd (mset (interleave ss ?q)))"
      using Cons by simp
    also have "\<dots> =
            add_mset a (mset (?q CrtSh) + mset (?q SecurityTrails) + mset (?q Shodan)
              + mset (?q VirusTotal))"
      by (simp only: Cons.IH)
    also have "\<dots> =
            mset (q CrtSh) + mset (q SecurityTrails) + mset (q Shodan) + mset (q VirusTotal)"
      using Cons by (cases s) simp_all
    finally show ?thesis .
  qed
qed

lemma set_interleave:
  "snd ` set (interleave sched q) =
     set (q CrtSh) \<union> set (q SecurityTrails) \<union> set (q Shodan) \<union> set (q VirusTotal)"
proof -
  have "set_mset (image_mset snd (mset (interleave sched q))) =
          set_mset (mset (q CrtSh) + mset (q SecurityTrails) + mset (q Shodan)
            + mset (q VirusTotal))"
    by (simp only: mset_interleave)
  then show ?thesis by simp
qed

lemma count_interleave:
  "count_list (map snd (interleave sched q)) a =
     count_list (q CrtSh) a + count_list (q SecurityTrails) a
       + count_list (q Shodan) a + count_list (q VirusTotal) a"
proof -
  have "count_list (map snd (interleave sched q)) a =
          count (image_mset snd (mset (interleave sched q))) a"
    by (simp add: count_mset flip: mset_map)
  also have "\<dots> =
          count (mset (q CrtSh) + mset (q SecurityTrails) + mset (q Shodan)
            + mset (q VirusTotal)) a"
    by (simp only: mset_interleave)
  finally show ?thesis by (simp add: count_mset)
qed

lemma exec_Inr_iff: "(\<exists>st'. exec L st = Inr st') \<longleftrightarrow> NilDeref \<notin> snd ` set L"
  by (induction L st rule: exec.induct) auto

lemma exec_Inl_iff: "(\<exists>st'. exec L st = Inl st') \<longleftrightarrow> NilDeref \<in> snd ` set L"
  by (induction L st rule: exec.induct) auto

lemma dom_step:
  "dom (uniqueSubs (step src a st)) =
     dom (uniqueSubs st) \<union> {s. a = AddSubdomain s \<and> \<not> containsWildcard s}"
  by (cases a) (auto simp: dom_addSubdomain)

lemma wg_step: "wg (step src a st) = wg st - (if a = WgDone then 1 else 0)"
  by (cases a) auto

lemma exec_dom:
  "exec L st = Inr st' \<Longrightarrow>
     dom (uniqueSubs st') =
       dom (uniqueSubs st) \<union> {s. AddSubdomain s \<in> snd ` set L \<and> \<not> containsWildcard s}"
proof (induction L st rule: exec.induct)
  case (1 st)
  then show ?case by simp
next
  case (2 src a rest st)
  then have "a \<noteq> NilDeref" and "exec rest (step src a st) = Inr st'"
    by (auto split: if_splits)
  with 2 show ?case
    unfolding dom_step by auto
qed

lemma exec_wg:
  "exec L st = Inr st' \<Longrightarrow> wg st' = wg st - int (count_list (map snd L) WgDone)"
proof (induction L st rule: exec.induct)
  case (1 st)
  then show ?case by simp
next
  case (2 src a rest st)
  then have "a \<noteq> NilDeref" and "exec rest (step src a st) = Inr st'"
    by (auto split: if_splits)
  with 2 show ?case
    by (simp add: wg_step)
qed

lemma step_no_wildcard:
  "containsWildcard s \<Longrightarrow> uniqueSubs st s = None \<Longrightarrow>
   uniqueSubs (step src a st) s = None \<and> uniqueSubs (printAllSubdomains ks st) s = None"
  by (cases a) (auto simp: uniqueSubs_addSubdomain printAllSubdomains_def)

lemma exec_no_wildcard:
  "exec L st = r \<Longrightarrow> containsWildcard s \<Longrightarrow> uniqueSubs st s = None \<Longrightarrow>
     uniqueSubs (case r of Inl st' \<Rightarrow> st' | Inr st' \<Rightarrow> st') s = None"
proof (induction L st rule: exec.induct)
  case (1 st)
  then show ?case by auto
next
  case (2 src a rest st)
  have "uniqueSubs (step src a st) s = None"
    using 2(3,4) by (cases a) (auto simp: uniqueSubs_addSubdomain)
  with 2 show ?case by (auto split: if_splits)
qed

section \<open>Lemmas on the retrying fetcher\<close>

lemma rounds_step: "i < k \<Longrightarrow> rounds i k = [HttpDo i, Sleep] @ rounds (Suc i) k"
  by (simp add: rounds_def upt_conv_Cons)

lemma rounds_empty [simp]: "k \<le> i \<Longrightarrow> rounds i k = []"
  by (simp add: rounds_def)

lemma fetchLoop_success:
  "i \<le> k \<Longrightarrow> k < retryLimit \<Longrightarrow> \<forall>j. i \<le> j \<and> j < k \<longrightarrow> \<not> success (do j) \<Longrightarrow>
   do k = Responded resp \<Longrightarrow> StatusCode resp = 200 \<Longrightarrow>
   fetchLoop do i err tr = ((Some resp, None), tr @ rounds i k @ [HttpDo k])"
proof (induction do i err tr rule: fetchLoop.induct)
  case (1 do i err tr)
  show ?case
  proof (cases "i = k")
    case True
    with 1(4-7) show ?thesis
      by (simp add: fetchLoop.simps [of do k])
  next
    case False
    with 1(3) have lt: "i < k" by simp
    with 1(4) have il: "i < retryLimit" by simp
    from lt 1(5) have ns: "\<not> success (do i)" by simp
    have later: "\<forall>j. Suc i \<le> j \<and> j < k \<longrightarrow> \<not> success (do j)"
      using 1(5) by simp
    show ?thesis
    proof (cases "do i")
      case (Failed e)
      from 1(1) [OF il Failed _ 1(4) later 1(6,7)] lt
      have "fetchLoop do (Suc i) (Some e) (tr @ [HttpDo i, Sleep]) =
              ((Some resp, None), (tr @ [HttpDo i, Sleep]) @ rounds (Suc i) k @ [HttpDo k])"
        by simp
      then show ?thesis
        using il Failed lt by (simp add: fetchLoop.simps [of do i] rounds_step)
    next
      case (Responded r)
      with ns have n200: "StatusCode r \<noteq> 200" by simp
      from 1(2) [OF il Responded n200 _ 1(4) later 1(6,7)] lt
      have "fetchLoop do (Suc i) None (tr @ [HttpDo i, Sleep]) =
              ((Some resp, None), (tr @ [HttpDo i, Sleep]) @ rounds (Suc i) k @ [HttpDo k])"
        by simp
      then show ?thesis
        using il Responded n200 lt by (simp add: fetchLoop.simps [of do i] rounds_step)
    qed
  qed
qed

lemma fetchLoop_exhausted:
  "\<forall>j. i \<le> j \<and> j < retryLimit \<longrightarrow> \<not> success (do j) \<Longrightarrow>
   fetchLoop do i err tr =
     ((None, if i < retryLimit then errOf (do (retryLimit - 1)) else err),
      tr @ rounds i retryLimit)"
proof (induction do i err tr rule: fetchLoop.induct)
  case (1 do i err tr)
  show ?case
  proof (cases "i < retryLimit")
    case False
    then show ?thesis by (simp add: fetchLoop.simps [of do i])
  next
    case il: True
    with 1(3) have ns: "\<not> success (do i)" by simp
    have later: "\<forall>j. Suc i \<le> j \<and> j < retryLimit \<longrightarrow> \<not> success (do j)"
      using 1(3) by simp
    have last: "\<not> Suc i < retryLimit \<Longrightarrow> retryLimit - 1 = i"
      using il by simp
    show ?thesis
    proof (cases "do i")
      case (Failed e)
      from 1(1) [OF il Failed later] show ?thesis
        using il Failed last by (auto simp: fetchLoop.simps [of do i] rounds_step)
    next
      case (Responded r)
      with ns have n200: "StatusCode r \<noteq> 200" by simp
      from 1(2) [OF il Responded n200 later] show ?thesis
        using il Responded n200 last by (auto simp: fetchLoop.simps [of do i] rounds_step)
    qed
  qed
qed

lemma requests_append [simp]: "requests (as @ bs) = requests as @ requests bs"
  by (induction as rule: requests.induct) simp_all

lemma requests_rounds: "requests (rounds i k) = [i..<k]"
proof (induction "k - i" arbitrary: i)
  case 0
  then show ?case by simp
next
  case (Suc n)
  then have "i < k" and "n = k - Suc i" by simp_all
  with Suc(1) [of "Suc i"] show ?case
    by (simp add: rounds_step upt_conv_Cons)
qed

lemma fetchWithRetries_success:
  assumes "k < retryLimit" and "\<forall>j<k. \<not> success (do j)"
    and "do k = Responded resp" and "StatusCode resp = 200"
  shows "fetchWithRetries do = ((Some resp, None), rounds 0 k @ [HttpDo k])"
  unfolding fetchWithRetries_def
  using fetchLoop_success [of 0 k do resp None "[]"] assms by simp

lemma fetchWithRetries_exhausted:
  assumes "\<forall>j<retryLimit. \<not> success (do j)"
  shows "fetchWithRetries do = ((None, errOf (do (retryLimit - 1))), rounds 0 retryLimit)"
  unfolding fetchWithRetries_def
  using fetchLoop_exhausted [of 0 do None "[]"] assms by (simp add: retryLimit_def)

lemma fetchWithRetries_cases:
  obtains (hit) k resp where "k < retryLimit" and "\<forall>j<k. \<not> success (do j)"
      and "do k = Responded resp" and "StatusCode resp = 200"
      and "fetchWithRetries do = ((Some resp, None), rounds 0 k @ [HttpDo k])"
  | (miss) "\<forall>j<retryLimit. \<not> success (do j)"
      and "fetchWithRetries do = ((None, errOf (do (retryLimit - 1))), rounds 0 retryLimit)"
proof (cases "\<exists>k. k < retryLimit \<and> success (do k)")
  case True
  define k where "k = (LEAST k. k < retryLimit \<and> success (do k))"
  from True have k: "k < retryLimit \<and> success (do k)"
    unfolding k_def by (rule LeastI_ex)
  have least: "\<forall>j<k. \<not> success (do j)"
  proof (intro allI impI notI)
    fix j assume "j < k" and "success (do j)"
    with k have "j < retryLimit \<and> success (do j)" by simp
    then have "k \<le> j" unfolding k_def by (rule Least_le)
    with \<open>j < k\<close> show False by simp
  qed
  from k obtain resp where r: "do k = Responded resp" "StatusCode resp = 200"
    by (cases "do k") auto
  from k have kl: "k < retryLimit" ..
  have "fetchWithRetries do = ((Some resp, None), rounds 0 k @ [HttpDo k])"
    using kl least r by (rule fetchWithRetries_success)
  with kl least r show ?thesis by (rule hit)
next
  case False
  then have none: "\<forall>j<retryLimit. \<not> success (do j)" by blast
  then have "fetchWithRetries do = ((None, errOf (do (retryLimit - 1))), rounds 0 retryLimit)"
    by (rule fetchWithRetries_exhausted)
  with none show ?thesis by (rule miss)
qed

section \<open>Lemmas on the adapters and on the run\<close>

lemma set_rounds: "set (rounds i k) \<subseteq> insert Sleep (range HttpDo)"
  by (auto simp: rounds_def)

lemma NilDeref_rounds [simp]: "NilDeref \<notin> set (rounds i k)"
  using set_rounds [of i k] by auto

lemma count_WgDone_rounds [simp]: "count_list (rounds i k) WgDone = 0"
  using set_rounds [of i k] by (auto simp: count_list_0_iff)

lemma findings_append [simp]: "findings (as @ bs) = findings as @ findings bs"
  by (induction as rule: findings.induct) simp_all

lemma findings_rounds [simp]: "findings (rounds i k) = []"
proof (induction "k - i" arbitrary: i)
  case 0
  then show ?case by simp
next
  case (Suc n)
  then have "i < k" and "n = k - Suc i" by simp_all
  with Suc(1) [of "Suc i"] show ?case
    by (simp add: rounds_step)
qed

lemma findings_AddSubdomain [simp]: "findings (map AddSubdomain xs) = xs"
  by (induction xs) simp_all

lemma requests_AddSubdomain [simp]: "requests (map AddSubdomain xs) = []"
  by (induction xs) simp_all

lemma set_findings: "set (findings as) = {s. AddSubdomain s \<in> set as}"
  by (induction as rule: findings.induct) auto

lemma count_WgDone_AddSubdomain [simp]: "count_list (map AddSubdomain xs) WgDone = 0"
  by (induction xs) simp_all

lemma fetchThen_cases:
  obtains (hit) k resp where "k < retryLimit" and "\<forall>j<k. \<not> success (do j)"
      and "do k = Responded resp" and "StatusCode resp = 200"
      and "fetchThen name do parse =
             rounds 0 k @ [HttpDo k] @ map AddSubdomain (parse (Body resp)) @ [WgDone]"
  | (error) err where "\<forall>j<retryLimit. \<not> success (do j)"
      and "do (retryLimit - 1) = Failed err"
      and "fetchThen name do parse =
             rounds 0 retryLimit @ [Println (''Error querying '' @ name @ '': '' @ err), WgDone]"
  | (nil) resp where "\<forall>j<retryLimit. \<not> success (do j)"
      and "do (retryLimit - 1) = Responded resp"
      and "fetchThen name do parse = rounds 0 retryLimit @ [NilDeref]"
proof (cases do rule: fetchWithRetries_cases)
  case (hit k resp)
  then show ?thesis
    by (intro that(1) [of k resp]) (simp_all add: fetchThen_def)
next
  case miss
  show ?thesis
  proof (cases "do (retryLimit - 1)")
    case (Failed err)
    with miss show ?thesis
      by (intro that(2) [of err]) (simp_all add: fetchThen_def)
  next
    case (Responded resp)
    with miss show ?thesis
      by (intro that(3) [of resp]) (simp_all add: fetchThen_def)
  qed
qed

lemma fetchThen_WgDone:
  "NilDeref \<notin> set (fetchThen name do parse) \<Longrightarrow> count_list (fetchThen name do parse) WgDone = 1"
  by (rule fetchThen_cases [where name = name and parse = parse and do = "do"]) simp_all

lemma adapters_WgDone:
  "NilDeref \<notin> set (adapters cfg e src) \<Longrightarrow> count_list (adapters cfg e src) WgDone = 1"
  by (cases src)
    (auto simp: adapters_def fetchFromCrtSh_def fetchFromSecurityTrails_def
       fetchFromShodan_def fetchFromVirusTotal_def fetchThen_WgDone)

lemma configureHTTPClient_globals:
  "uniqueSubs (snd (configureHTTPClient e proxy st)) = uniqueSubs st
   \<and> wg (snd (configureHTTPClient e proxy st)) = wg st"
  by (simp add: configureHTTPClient_def Let_def println_def split: sum.splits option.splits)

lemma all_sources: "(\<forall>src. P src) \<longleftrightarrow> P CrtSh \<and> P SecurityTrails \<and> P Shodan \<and> P VirusTotal"
  by (metis source.exhaust)

lemma ex_sources: "(\<exists>src. P src) \<longleftrightarrow> P CrtSh \<or> P SecurityTrails \<or> P Shodan \<or> P VirusTotal"
  by (metis source.exhaust)

lemma main_completed:
  assumes d: "domain cfg \<noteq> []"
    and c: "fst (configureHTTPClient e (proxyURL cfg) initial) = Inr cl"
    and n: "\<forall>src. NilDeref \<notin> set (adapters cfg e src)"
  shows "fst (main cfg e sched ks) = Completed
    \<and> dom (uniqueSubs (snd (main cfg e sched ks))) =
        {s. \<exists>src. s \<in> set (findings (adapters cfg e src)) \<and> \<not> containsWildcard s}
    \<and> (\<exists>out. stdout (snd (main cfg e sched ks)) = out @ listing ks)"
proof -
  obtain st0 where conf: "configureHTTPClient e (proxyURL cfg) initial = (Inr cl, st0)"
    using c by (cases "configureHTTPClient e (proxyURL cfg) initial") simp
  from configureHTTPClient_globals [of e "proxyURL cfg" initial] conf
  have st0: "uniqueSubs st0 = Map.empty" "wg st0 = 0"
    by (simp_all add: initial_def)
  let ?L = "interleave sched (adapters cfg e)"
  have "NilDeref \<notin> snd ` set ?L"
    unfolding set_interleave using n by simp
  then obtain st' where ex: "exec ?L (st0\<lparr>wg := wg st0 + 4\<rparr>) = Inr st'"
    using exec_Inr_iff by blast
  have "wg st' = 4 - int (count_list (map snd ?L) WgDone)"
    using exec_wg [OF ex] st0 by simp
  also have "count_list (map snd ?L) WgDone = 4"
    unfolding count_interleave using n by (simp add: adapters_WgDone)
  finally have w: "wg st' = 0" by simp
  have m: "main cfg e sched ks = (Completed, printAllSubdomains ks st')"
    using d conf ex w by (simp add: main_def)
  have "dom (uniqueSubs st') =
          {s. AddSubdomain s \<in> snd ` set ?L \<and> \<not> containsWildcard s}"
    using exec_dom [OF ex] st0 by simp
  also have "\<dots> = {s. \<exists>src. s \<in> set (findings (adapters cfg e src)) \<and> \<not> containsWildcard s}"
    unfolding set_interleave set_findings ex_sources by auto
  finally show ?thesis
    using m by (simp add: printAllSubdomains_def)
qed

lemma main_crashed:
  assumes d: "domain cfg \<noteq> []"
    and c: "fst (configureHTTPClient e (proxyURL cfg) initial) = Inr cl"
    and n: "NilDeref \<in> set (adapters cfg e src)"
  shows "fst (main cfg e sched ks) = Crashed"
proof -
  obtain st0 where conf: "configureHTTPClient e (proxyURL cfg) initial = (Inr cl, st0)"
    using c by (cases "configureHTTPClient e (proxyURL cfg) initial") simp
  let ?L = "interleave sched (adapters cfg e)"
  have "NilDeref \<in> snd ` set ?L"
    unfolding set_interleave using n by (cases src) simp_all
  then obtain st' where ex: "exec ?L (st0\<lparr>wg := wg st0 + 4\<rparr>) = Inl st'"
    using exec_Inl_iff by blast
  show ?thesis
    using d conf ex by (simp add: main_def)
qed

lemma count_list_distinct:
  "distinct ks \<Longrightarrow> count_list ks s = (if s \<in> set ks then 1 else 0)"
  by (induction ks) auto

lemma exec_findings:
  assumes "\<forall>src. NilDeref \<notin> set (q src)"
  shows "\<exists>st'. exec (interleave sched q) st = Inr st'
    \<and> dom (uniqueSubs st') =
        dom (uniqueSubs st) \<union> {x. \<exists>src. x \<in> set (findings (q src)) \<and> \<not> containsWildcard x}"
proof -
  let ?L = "interleave sched q"
  have "NilDeref \<notin> snd ` set ?L"
    unfolding set_interleave using assms by simp
  then obtain st' where ex: "exec ?L st = Inr st'"
    using exec_Inr_iff by blast
  have "{s. AddSubdomain s \<in> snd ` set ?L \<and> \<not> containsWildcard s} =
          {x. \<exists>src. x \<in> set (findings (q src)) \<and> \<not> containsWildcard x}"
    unfolding set_interleave set_findings ex_sources by auto
  with exec_dom [OF ex] ex show ?thesis by simp
qed

lemma main_no_wildcard:
  assumes "containsWildcard s"
  shows "uniqueSubs (snd (main cfg e sched ks)) s = None"
proof (cases "domain cfg = []")
  case True
  then show ?thesis by (simp add: main_def initial_def)
next
  case False
  obtain r st0 where conf: "configureHTTPClient e (proxyURL cfg) initial = (r, st0)"
    by (cases "configureHTTPClient e (proxyURL cfg) initial")
  from configureHTTPClient_globals [of e "proxyURL cfg" initial] conf
  have st0: "uniqueSubs st0 = Map.empty"
    by (simp add: initial_def)
  show ?thesis
  proof (cases r)
    case (Inl status)
    with False conf st0 show ?thesis by (simp add: main_def)
  next
    case (Inr cl)
    let ?x = "exec (interleave sched (adapters cfg e)) (st0\<lparr>wg := wg st0 + 4\<rparr>)"
    have "uniqueSubs (case ?x of Inl st' \<Rightarrow> st' | Inr st' \<Rightarrow> st') s = None"
      using assms st0 by (intro exec_no_wildcard [OF refl]) simp_all
    with False conf Inr show ?thesis
      by (cases ?x) (simp_all add: main_def printAllSubdomains_def)
  qed
qed

lemma recordAll_no_wildcard:
  "containsWildcard s \<Longrightarrow> uniqueSubs (recordAll xs st) s = uniqueSubs st s"
  by (induction xs arbitrary: st) (auto simp: uniqueSubs_addSubdomain)

lemma key_in_rangeOrder: "rangeOrder m ks \<Longrightarrow> s \<in> set ks \<longleftrightarrow> m s \<noteq> None"
  by (auto simp: rangeOrder_def)


lemma crtsh_only_scenario:
  assumes d: "domain cfg = ''example.com''" and p: "proxyURL cfg = []"
      and k: "apiKeySecurityTrails cfg = []" "apiKeyShodan cfg = []" "apiKeyVirusTotal cfg = []"
      and h: "httpDo e CrtSh 0 = Responded resp" "StatusCode resp = 200"
      and f: "parseCrtSh (Body resp) =
           [''sub1.example.com'', ''sub2.example.com'', ''*.example.com'', ''sub1.example.com'']"
  shows "fst (main cfg e sched ks) = Completed
         \<and> dom (uniqueSubs (snd (main cfg e sched ks))) = {''sub1.example.com'', ''sub2.example.com''}"
proof -
  have fw: "fetchWithRetries (httpDo e CrtSh) = ((Some resp, None), [HttpDo 0])"
    using fetchWithRetries_success [of 0 "httpDo e CrtSh" resp] h
    by (simp add: retryLimit_def)
  have crt: "adapters cfg e CrtSh =
        [HttpDo 0, AddSubdomain ''sub1.example.com'', AddSubdomain ''sub2.example.com'',
         AddSubdomain ''*.example.com'', AddSubdomain ''sub1.example.com'', WgDone]"
    by (simp add: adapters_def fetchFromCrtSh_def fetchThen_def fw f)
  have others: "adapters cfg e SecurityTrails =
          [Println ''SecurityTrails not configured. Skipping results.'', WgDone]"
        "adapters cfg e Shodan = [Println ''Shodan not configured. Skipping results.'', WgDone]"
        "adapters cfg e VirusTotal =
          [Println ''VirusTotal not configured. Skipping results.'', WgDone]"
      using k by (simp_all add: adapters_def fetchFromSecurityTrails_def fetchFromShodan_def
          fetchFromVirusTotal_def)
  have n: "\<forall>src. NilDeref \<notin> set (adapters cfg e src)"
    unfolding all_sources crt others by simp
  have c: "fst (configureHTTPClient e (proxyURL cfg) initial)
               = Inr \<lparr>Timeout = defaultTimeout, Proxy = None\<rparr>"
    using p by (simp add: configureHTTPClient_def)
  have dn: "domain cfg \<noteq> []" using d by simp
  have w: "containsWildcard ''*.example.com''" "\<not> containsWildcard ''sub1.example.com''"
      "\<not> containsWildcard ''sub2.example.com''"
    by (simp_all add: containsWildcard_def)
  have "{s. \<exists>src. s \<in> set (findings (adapters cfg e src)) \<and> \<not> containsWildcard s}
            = {''sub1.example.com'', ''sub2.example.com''}"
    unfolding ex_sources crt others using w by auto
  with main_completed [OF dn c n, of sched ks] show ?thesis by simp
qed

lemma set_interleave_tagged:
  "(src, a) \<in> set (interleave sched q) \<Longrightarrow> a \<in> set (q src)"
proof (induction sched arbitrary: q)
  case Nil
  then show ?case by (cases src) (auto simp: tag_def)
next
  case (Cons s ss)
  show ?case
  proof (cases "q s")
    case Nil
    with Cons show ?thesis by simp
  next
    case (Cons b bs)
    with Cons.prems have "(src, a) = (s, b) \<or> (src, a) \<in> set (interleave ss (q(s := bs)))"
      by simp
    then show ?thesis
    proof
      assume "(src, a) = (s, b)"
      with Cons show ?thesis by simp
    next
      assume "(src, a) \<in> set (interleave ss (q(s := bs)))"
      then have "a \<in> set ((q(s := bs)) src)" by (rule Cons.IH)
      with Cons show ?thesis by (cases "src = s") simp_all
    qed
  qed
qed

lemma network_step:
  "set (network (step src a st)) =
     set (network st) \<union> (case a of HttpDo i \<Rightarrow> {Request src i} | _ \<Rightarrow> {})"
  by (cases a) (auto simp: println_def addSubdomain_def)

lemma exec_network:
  "exec L st = r \<Longrightarrow>
   n \<in> set (network (case r of Inl st' \<Rightarrow> st' | Inr st' \<Rightarrow> st')) \<Longrightarrow>
   n \<in> set (network st) \<or> (\<exists>src i. n = Request src i \<and> (src, HttpDo i) \<in> set L)"
proof (induction L st rule: exec.induct)
  case (1 st)
  then show ?case by auto
next
  case (2 src a rest st)
  show ?case
  proof (cases "a = NilDeref")
    case True
    with 2(2,3) show ?thesis by auto
  next
    case False
    with 2(2) have "exec rest (step src a st) = r" by simp
    from 2(1) [OF False this 2(3)]
    have "n \<in> set (network (step src a st))
        \<or> (\<exists>src i. n = Request src i \<and> (src, HttpDo i) \<in> set rest)" .
    then show ?thesis
      unfolding network_step by (cases a) auto
  qed
qed

lemma configureHTTPClient_network:
  "Request src i \<in> set (network (snd (configureHTTPClient e proxy st))) \<Longrightarrow>
   Request src i \<in> set (network st)"
  by (auto simp: configureHTTPClient_def Let_def println_def split: sum.splits option.splits if_splits)

lemma main_network:
  assumes "Request src i \<in> set (network (snd (main cfg e sched ks)))"
  shows "HttpDo i \<in> set (adapters cfg e src)
    \<and> domain cfg \<noteq> [] \<and> (\<exists>cl. fst (configureHTTPClient e (proxyURL cfg) initial) = Inr cl)"
proof (cases "domain cfg = []")
  case True
  with assms show ?thesis by (simp add: main_def initial_def println_def)
next
  case False
  obtain r st0 where conf: "configureHTTPClient e (proxyURL cfg) initial = (r, st0)"
    by (cases "configureHTTPClient e (proxyURL cfg) initial")
  have st0: "Request src i \<notin> set (network st0)"
    using configureHTTPClient_network [of src i e "proxyURL cfg" initial] conf
    by (auto simp: initial_def)
  show ?thesis
  proof (cases r)
    case (Inl status)
    with False conf st0 assms show ?thesis by (simp add: main_def)
  next
    case (Inr cl)
    let ?L = "interleave sched (adapters cfg e)"
    let ?x = "exec ?L (st0\<lparr>wg := wg st0 + 4\<rparr>)"
    have "network (snd (main cfg e sched ks)) = network (case ?x of Inl st' \<Rightarrow> st' | Inr st' \<Rightarrow> st')"
      using False conf Inr by (cases ?x) (simp_all add: main_def printAllSubdomains_def)
    with assms have "Request src i \<in> set (network (case ?x of Inl st' \<Rightarrow> st' | Inr st' \<Rightarrow> st'))"
      by simp
    from exec_network [OF refl this] st0 have "(src, HttpDo i) \<in> set ?L"
      by auto
    then have "HttpDo i \<in> set (adapters cfg e src)"
      by (rule set_interleave_tagged)
    with False conf Inr show ?thesis by simp
  qed
qed

lemma disabled_adapter:
  "disabled cfg src \<Longrightarrow>
   \<exists>l. adapters cfg e src = [Println l, WgDone]"
  by (cases src)
    (simp_all add: adapters_def fetchFromSecurityTrails_def fetchFromShodan_def
       fetchFromVirusTotal_def)

lemma configureHTTPClient_fatal:
  assumes "proxy \<noteq> []"
    and "isl (urlParse e proxy) \<or> (\<exists>host. urlParse e proxy = Inr host \<and> dialTimeout e host \<noteq> None)"
  shows "fst (configureHTTPClient e proxy st) = Inl 1
    \<and> (\<exists>l. stdout (snd (configureHTTPClient e proxy st)) = stdout st @ [''Error '' @ l])"
  using assms
  by (auto simp: configureHTTPClient_def Let_def println_def isl_def split: sum.splits option.splits)


lemma announced_append [simp]: "announced (ls @ ms) = announced ls @ announced ms"
  by (induction ls) simp_all





lemma exhausted_with_error:
  assumes "\<forall>j<retryLimit. \<not> success (do j)" and "do (retryLimit - 1) = Failed err"
  shows "fst (fetchWithRetries do) = (None, Some err)
    \<and> fetchThen name do parse =
          rounds 0 retryLimit @ [Println (''Error querying '' @ name @ '': '' @ err), WgDone]
    \<and> findings (fetchThen name do parse) = []"
  using fetchWithRetries_exhausted [OF assms(1)] assms(2)
  by (simp add: fetchThen_def)

lemma exhausted_with_status:
  assumes "\<forall>j<retryLimit. \<not> success (do j)" and "do (retryLimit - 1) = Responded resp"
  shows "fst (fetchWithRetries do) = (None, None)
    \<and> fetchThen name do parse = rounds 0 retryLimit @ [NilDeref]"
  using fetchWithRetries_exhausted [OF assms(1)] assms(2)
  by (simp add: fetchThen_def)
lemma undecodable_yields_nothing:
  "parseCrtSh None = [] \<and> parseLabels D None = [] \<and> parseData None = []"
  by (simp add: parseCrtSh_def parseLabels_def parseData_def)

lemma wrong_type_yields_nothing:
  "parseCrtSh (Some (VBool b)) = [] \<and> parseCrtSh (Some (VFloat64 r)) = []
   \<and> parseCrtSh (Some (VString s)) = [] \<and> parseCrtSh (Some (VMap kvs)) = []
   \<and> parseLabels D (Some (VBool b)) = [] \<and> parseLabels D (Some (VFloat64 r)) = []
   \<and> parseLabels D (Some (VString s)) = [] \<and> parseLabels D (Some (VSlice vs)) = []
   \<and> parseData (Some (VBool b)) = [] \<and> parseData (Some (VFloat64 r)) = []
   \<and> parseData (Some (VString s)) = [] \<and> parseData (Some (VSlice vs)) = []"
  by (simp add: parseCrtSh_def parseLabels_def parseData_def)

lemma fetched_adapter_returns:
  assumes "k < retryLimit" and "\<forall>j<k. \<not> success (do j)"
    and "do k = Responded resp" and "StatusCode resp = 200"
  shows "fetchThen name do parse =
           rounds 0 k @ [HttpDo k] @ map AddSubdomain (parse (Body resp)) @ [WgDone]
    \<and> NilDeref \<notin> set (fetchThen name do parse)
    \<and> findings (fetchThen name do parse) = parse (Body resp)"
  using fetchWithRetries_success [OF assms]
  by (auto simp: fetchThen_def)

text \<open>Every run ends: \<^verbatim>\<open>wg.Wait()\<close> never blocks for ever.\<close>

lemma main_never_blocks: "fst (main cfg e sched ks) \<noteq> Deadlock"
proof (cases "domain cfg = []")
  case True
  then show ?thesis by (simp add: main_def)
next
  case d: False
  show ?thesis
  proof (cases "fst (configureHTTPClient e (proxyURL cfg) initial)")
    case (Inl status)
    with d show ?thesis
      by (cases "configureHTTPClient e (proxyURL cfg) initial") (simp add: main_def)
  next
    case (Inr cl)
    show ?thesis
    proof (cases "\<exists>src. NilDeref \<in> set (adapters cfg e src)")
      case True
      then obtain src where "NilDeref \<in> set (adapters cfg e src)" ..
      with d Inr have "fst (main cfg e sched ks) = Crashed"
        by (rule main_crashed)
      then show ?thesis by simp
    next
      case False
      then have "\<forall>src. NilDeref \<notin> set (adapters cfg e src)" by simp
      with d Inr have "fst (main cfg e sched ks) = Completed"
        using main_completed by blast
      then show ?thesis by simp
    qed
  qed
qed

lemma interleaving_run:
  "interleaving (q(s := [])) L \<Longrightarrow> interleaving q (tag s (q s) @ L)"
proof (induction "q s" arbitrary: q)
  case Nil
  then have "q(s := []) = q" by auto
  with Nil show ?case by (simp add: tag_def)
next
  case (Cons a as)
  let ?q = "q(s := as)"
  have "interleaving ?q (tag s (?q s) @ L)"
  proof (rule Cons(1))
    show "as = ?q s" by simp
    show "interleaving (?q(s := [])) L" using Cons(3) by simp
  qed
  then have "interleaving ?q (tag s as @ L)" by simp
  with Cons(2) [symmetric] have "interleaving q ((s, a) # tag s as @ L)"
    by (rule move)
  with Cons(2) [symmetric] show ?case by (simp add: tag_def)
qed

lemma interleave_sound: "interleaving q (interleave sched q)"
proof (induction sched arbitrary: q)
  case Nil
  let ?q1 = "q(CrtSh := [])"
  let ?q2 = "?q1(SecurityTrails := [])"
  let ?q3 = "?q2(Shodan := [])"
  let ?q4 = "?q3(VirusTotal := [])"
  have "?q4 src = []" for src by (cases src) simp_all
  then have "interleaving ?q4 []" by (rule finished)
  then have "interleaving ?q3 (tag VirusTotal (?q3 VirusTotal) @ [])"
    by (rule interleaving_run)
  then have "interleaving ?q3 (tag VirusTotal (q VirusTotal))" by simp
  then have "interleaving ?q2 (tag Shodan (?q2 Shodan) @ tag VirusTotal (q VirusTotal))"
    by (rule interleaving_run)
  then have "interleaving ?q2 (tag Shodan (q Shodan) @ tag VirusTotal (q VirusTotal))" by simp
  then have "interleaving ?q1 (tag SecurityTrails (?q1 SecurityTrails)
      @ tag Shodan (q Shodan) @ tag VirusTotal (q VirusTotal))"
    by (rule interleaving_run)
  then have "interleaving ?q1 (tag SecurityTrails (q SecurityTrails)
      @ tag Shodan (q Shodan) @ tag VirusTotal (q VirusTotal))" by simp
  then have "interleaving q (tag CrtSh (q CrtSh) @ tag SecurityTrails (q SecurityTrails)
      @ tag Shodan (q Shodan) @ tag VirusTotal (q VirusTotal))"
    by (rule interleaving_run)
  then show ?case by simp
next
  case (Cons s ss)
  show ?case
  proof (cases "q s")
    case Nil
    with Cons.IH [of q] show ?thesis by simp
  next
    case (Cons a as)
    from Cons Cons.IH [of "q(s := as)"] have "interleaving q ((s, a) # interleave ss (q(s := as)))"
      by (rule move)
    with Cons show ?thesis by simp
  qed
qed

lemma interleave_complete: "interleaving q L \<Longrightarrow> interleave (map fst L) q = L"
proof (induction rule: interleaving.induct)
  case (finished q)
  then show ?case by (simp add: tag_def)
next
  case (move q s a as L)
  have "interleave (map fst ((s, a) # L)) q = (s, a) # interleave (map fst L) (q(s := as))"
    using move(1) by simp
  also have "interleave (map fst L) (q(s := as)) = L"
    by (rule move(3))
  finally show ?case .
qed

text \<open>
  An adapter started without its key prints its notice and calls \<^verbatim>\<open>wg.Done()\<close>, and
  does nothing else: no call of \<^verbatim>\<open>httpClient.Do\<close>, nothing passed to
  \<^verbatim>\<open>addSubdomain\<close>, and no request of its on the network in any run.
\<close>

lemma disabled_adapter_idle:
  assumes "disabled cfg src"
  shows "(\<exists>l. adapters cfg e src = [Println l, WgDone])
    \<and> requests (adapters cfg e src) = []
    \<and> findings (adapters cfg e src) = []
    \<and> (\<forall>i. Request src i \<notin> set (network (snd (main cfg e sched ks))))"
proof -
  from assms obtain l where a: "adapters cfg e src = [Println l, WgDone]"
    using disabled_adapter by blast
  have n: "\<forall>i. Request src i \<notin> set (network (snd (main cfg e sched ks)))"
    using main_network [of src _ cfg e sched ks] a by auto
  from a n show ?thesis by simp
qed

section \<open>The claims\<close>

text \<open>
  C1. Whatever strings are passed to \<^verbatim>\<open>addSubdomain\<close> during a run, in whatever
  order and however often, the keys of \<^verbatim>\<open>uniqueSubs\<close> at the end are the distinct
  strings among them that are no wildcard. Each of them occurs once in any order in
  which the final listing ranges over the map, and is announced once. The first call
  with a string inserts it; a call with a string that is a key leaves the map as it is.
  The calls of concurrent adapters are serialised by the mutex: for every schedule of
  the four goroutines (none of which panics) the keys at the end are the strings that
  some adapter recorded, wildcards apart.
\<close>

theorem deduplication:
  "dom (uniqueSubs (recordAll xs initial)) = {x \<in> set xs. \<not> containsWildcard x}
   \<and> (rangeOrder (uniqueSubs (recordAll xs initial)) ks \<longrightarrow>
        count_list ks s = (if s \<in> set xs \<and> \<not> containsWildcard s then 1 else 0))
   \<and> count_list (stdout (recordAll xs initial)) (''Subdomain found: '' @ s) =
        (if s \<in> set xs \<and> \<not> containsWildcard s then 1 else 0)
   \<and> (\<not> containsWildcard s \<and> uniqueSubs st s = None \<longrightarrow>
        uniqueSubs (addSubdomain s st) = (uniqueSubs st)(s \<mapsto> ()))
   \<and> (uniqueSubs st s \<noteq> None \<longrightarrow> uniqueSubs (addSubdomain s st) = uniqueSubs st)
   \<and> ((\<forall>src. NilDeref \<notin> set (q src)) \<longrightarrow>
        (\<exists>st'. exec (interleave sched q) initial = Inr st'
           \<and> dom (uniqueSubs st') =
               {x. \<exists>src. x \<in> set (findings (q src)) \<and> \<not> containsWildcard x}))"
proof -
  have d: "dom (uniqueSubs (recordAll xs initial)) = {x \<in> set xs. \<not> containsWildcard x}"
    by (simp add: dom_recordAll initial_def)
  have l: "count_list ks s = (if s \<in> set xs \<and> \<not> containsWildcard s then 1 else 0)"
    if "rangeOrder (uniqueSubs (recordAll xs initial)) ks"
    using that d by (simp add: rangeOrder_def count_list_distinct)
  have c: "count_list (stdout (recordAll xs initial)) (''Subdomain found: '' @ s) =
        (if s \<in> set xs \<and> \<not> containsWildcard s then 1 else 0)"
    unfolding count_found_recordAll by (simp add: initial_def)
  have f: "uniqueSubs (addSubdomain s st) = (uniqueSubs st)(s \<mapsto> ())"
    if "\<not> containsWildcard s"
    using that by (simp add: uniqueSubs_addSubdomain)
  have n: "uniqueSubs (addSubdomain s st) = uniqueSubs st" if "uniqueSubs st s \<noteq> None"
    using that by (auto simp: uniqueSubs_addSubdomain fun_eq_iff)
  have r: "\<exists>st'. exec (interleave sched q) initial = Inr st'
           \<and> dom (uniqueSubs st') =
               {x. \<exists>src. x \<in> set (findings (q src)) \<and> \<not> containsWildcard x}"
    if "\<forall>src. NilDeref \<notin> set (q src)"
    using exec_findings [OF that, of sched initial] by (simp add: initial_def)
  from d l c f n r show ?thesis by blast
qed

theorem deduplication_witness:
  "dom (uniqueSubs (recordAll [''a.example.com'', ''b.example.com'', ''a.example.com''] initial))
     = {x \<in> set [''a.example.com'', ''b.example.com'', ''a.example.com'']. \<not> containsWildcard x}
   \<and> count_list [''b.example.com'', ''a.example.com''] ''a.example.com'' = 1
   \<and> count_list (stdout (recordAll [''a.example.com'', ''b.example.com'', ''a.example.com''] initial))
        ''Subdomain found: a.example.com'' = 1
   \<and> uniqueSubs (addSubdomain ''a.example.com'' initial) = (uniqueSubs initial)(''a.example.com'' \<mapsto> ())
   \<and> uniqueSubs (addSubdomain ''a.example.com'' (addSubdomain ''a.example.com'' initial))
        = uniqueSubs (addSubdomain ''a.example.com'' initial)
   \<and> (\<exists>st'. exec (interleave [Shodan, CrtSh, Shodan]
                 (\<lambda>src. [AddSubdomain ''a.example.com'', AddSubdomain ''b.example.com''])) initial = Inr st'
         \<and> dom (uniqueSubs st') = {''a.example.com'', ''b.example.com''})"
proof -
  let ?xs = "[''a.example.com'', ''b.example.com'', ''a.example.com'']"
  let ?q = "\<lambda>src::source. [AddSubdomain ''a.example.com'', AddSubdomain ''b.example.com'']"
  have r: "rangeOrder (uniqueSubs (recordAll ?xs initial)) [''b.example.com'', ''a.example.com'']"
    by (auto simp: rangeOrder_def dom_addSubdomain containsWildcard_def initial_def)
  have w: "\<not> containsWildcard ''a.example.com''" "\<not> containsWildcard ''b.example.com''"
    by (simp_all add: containsWildcard_def)
  have p: "uniqueSubs (addSubdomain ''a.example.com'' initial) ''a.example.com'' \<noteq> None"
    by (simp add: uniqueSubs_addSubdomain w)
  have e: "uniqueSubs initial ''a.example.com'' = None"
    by (simp add: initial_def)
  have q: "\<forall>src. NilDeref \<notin> set (?q src)" by simp
  have s: "{x. \<exists>src::source. x \<in> set (findings (?q src)) \<and> \<not> containsWildcard x}
             = {''a.example.com'', ''b.example.com''}"
    using w by auto
  from deduplication [of ?xs "[''b.example.com'', ''a.example.com'']" "''a.example.com''" initial ?q
      "[Shodan, CrtSh, Shodan]"]
    deduplication [of ?xs "[]" "''a.example.com''" "addSubdomain ''a.example.com'' initial" ?q "[]"]
    r w p e q s
  show ?thesis by simp
qed

text \<open>
  C2 describes what the code is meant to do and does not do. When the last of the
  three attempts returns a response with a status other than 200 and no transport
  error, \<^verbatim>\<open>err\<close> is nil at \<^verbatim>\<open>return nil, err\<close>: \<^verbatim>\<open>fetchWithRetries\<close> returns a nil
  response and a nil error. The caller's test \<^verbatim>\<open>err != nil\<close> lets it through, and
  \<^verbatim>\<open>defer resp.Body.Close()\<close> dereferences the nil response: the adapter panics and
  the process dies of it, with status 2. Evaluated here for a source that
  answers 503 three times, next to the case the code handles (three transport errors:
  the error is returned and printed, and the adapter returns).
\<close>

theorem exhausted_on_status_returns_nil_error:
  "fetchWithRetries (\<lambda>i. Responded \<lparr>StatusCode = 503, Body = None\<rparr>)
     = ((None, None), [HttpDo 0, Sleep, HttpDo 1, Sleep, HttpDo 2, Sleep])
   \<and> fetchFromCrtSh ''example.com'' (\<lambda>i. Responded \<lparr>StatusCode = 503, Body = None\<rparr>)
     = [HttpDo 0, Sleep, HttpDo 1, Sleep, HttpDo 2, Sleep, NilDeref]
   \<and> fst (main
        \<lparr>domain = ''example.com'', proxyURL = [], apiKeySecurityTrails = [],
           apiKeyShodan = [], apiKeyVirusTotal = []\<rparr>
        \<lparr>urlParse = Inr, dialTimeout = (\<lambda>host. None),
           httpDo = (\<lambda>src i. Responded \<lparr>StatusCode = 503, Body = None\<rparr>)\<rparr>
        [] []) = Crashed
   \<and> fetchFromCrtSh ''example.com'' (\<lambda>i. Failed ''timeout'')
     = [HttpDo 0, Sleep, HttpDo 1, Sleep, HttpDo 2, Sleep,
        Println ''Error querying Crt.sh: timeout'', WgDone]"
proof -
  let ?do = "\<lambda>i::nat. Responded \<lparr>StatusCode = 503, Body = None\<rparr>"
  let ?cfg = "\<lparr>domain = ''example.com'', proxyURL = [], apiKeySecurityTrails = [],
           apiKeyShodan = [], apiKeyVirusTotal = []\<rparr>"
  let ?e = "\<lparr>urlParse = Inr, dialTimeout = (\<lambda>host. None),
           httpDo = (\<lambda>src i. Responded \<lparr>StatusCode = 503, Body = None\<rparr>)\<rparr>"
  have r: "rounds 0 retryLimit = [HttpDo 0, Sleep, HttpDo 1, Sleep, HttpDo 2, Sleep]"
    by (simp add: rounds_def retryLimit_def upt_conv_Cons)
  have a: "fetchWithRetries ?do = ((None, None), [HttpDo 0, Sleep, HttpDo 1, Sleep, HttpDo 2, Sleep])"
    using fetchWithRetries_exhausted [of ?do] r by simp
  have b: "fetchFromCrtSh ''example.com'' ?do
      = [HttpDo 0, Sleep, HttpDo 1, Sleep, HttpDo 2, Sleep, NilDeref]"
    by (simp add: fetchFromCrtSh_def fetchThen_def a)
  have "NilDeref \<in> set (adapters ?cfg ?e CrtSh)"
    using b by (simp add: adapters_def)
  moreover have "fst (configureHTTPClient ?e (proxyURL ?cfg) initial)
      = Inr \<lparr>Timeout = defaultTimeout, Proxy = None\<rparr>"
    by (simp add: configureHTTPClient_def)
  moreover have "domain ?cfg \<noteq> []" by simp
  ultimately have c: "fst (main ?cfg ?e [] []) = Crashed"
    by (intro main_crashed)
  have "fetchWithRetries (\<lambda>i. Failed ''timeout'')
      = ((None, Some ''timeout''), [HttpDo 0, Sleep, HttpDo 1, Sleep, HttpDo 2, Sleep])"
    using fetchWithRetries_exhausted [of "\<lambda>i. Failed ''timeout''"] r by simp
  then have d: "fetchFromCrtSh ''example.com'' (\<lambda>i. Failed ''timeout'')
     = [HttpDo 0, Sleep, HttpDo 1, Sleep, HttpDo 2, Sleep,
        Println ''Error querying Crt.sh: timeout'', WgDone]"
    by (simp add: fetchFromCrtSh_def fetchThen_def)
  from a b c d show ?thesis by (intro conjI)
qed

text \<open>
  C3. \<^verbatim>\<open>containsWildcard\<close> holds of the strings that are not empty and start with
  \<open>*\<close>, and of no other. Such a finding is discarded by \<^verbatim>\<open>addSubdomain\<close>: the map is
  left as it is. However often it is submitted, it is no key of \<^verbatim>\<open>uniqueSubs\<close>,
  neither after a sequence of calls nor at the end of a run of \<^verbatim>\<open>main\<close> (whatever
  the configuration, the answers of the sources, the schedule and the ending), and no
  listing of the final map prints it. In the scenario of the specification (domain
  \<open>example.com\<close>, no proxy, no API key, the certificate-transparency source answering
  200 with the names sub1, sub2, the wildcard and sub1 again) every run completes with
  exactly the keys \<open>sub1.example.com\<close> and \<open>sub2.example.com\<close>.
\<close>

theorem wildcard_never_reported:
  "(containsWildcard s \<longleftrightarrow> s \<noteq> [] \<and> hd s = CHR ''*'')
   \<and> (containsWildcard s \<longrightarrow>
      uniqueSubs (addSubdomain s st) = uniqueSubs st
      \<and> uniqueSubs (recordAll xs initial) s = None
      \<and> uniqueSubs (snd (main cfg e sched ks)) s = None
      \<and> (rangeOrder (uniqueSubs (snd (main cfg e sched ks))) ks \<longrightarrow> s \<notin> set ks))
   \<and> (domain cfg = ''example.com'' \<and> proxyURL cfg = []
       \<and> apiKeySecurityTrails cfg = [] \<and> apiKeyShodan cfg = [] \<and> apiKeyVirusTotal cfg = []
       \<and> httpDo e CrtSh 0 = Responded resp \<and> StatusCode resp = 200
       \<and> parseCrtSh (Body resp) =
           [''sub1.example.com'', ''sub2.example.com'', ''*.example.com'', ''sub1.example.com'']
       \<longrightarrow> fst (main cfg e sched ks) = Completed
         \<and> dom (uniqueSubs (snd (main cfg e sched ks))) = {''sub1.example.com'', ''sub2.example.com''})"
proof (intro conjI)
  show "containsWildcard s \<longleftrightarrow> s \<noteq> [] \<and> hd s = CHR ''*''"
    by (cases s) (simp_all add: containsWildcard_def)
next
  show "containsWildcard s \<longrightarrow>
      uniqueSubs (addSubdomain s st) = uniqueSubs st
      \<and> uniqueSubs (recordAll xs initial) s = None
      \<and> uniqueSubs (snd (main cfg e sched ks)) s = None
      \<and> (rangeOrder (uniqueSubs (snd (main cfg e sched ks))) ks \<longrightarrow> s \<notin> set ks)"
  proof (rule impI)
  assume w: "containsWildcard s"
  have r: "uniqueSubs (recordAll xs initial) s = None"
    using w by (simp add: recordAll_no_wildcard initial_def)
  have m: "uniqueSubs (snd (main cfg e sched ks)) s = None"
    using w by (rule main_no_wildcard)
  have a: "uniqueSubs (addSubdomain s st) = uniqueSubs st"
    using w by (simp add: uniqueSubs_addSubdomain)
  have l: "rangeOrder (uniqueSubs (snd (main cfg e sched ks))) ks \<longrightarrow> s \<notin> set ks"
    using m by (simp add: key_in_rangeOrder)
  from a r m l
  show "uniqueSubs (addSubdomain s st) = uniqueSubs st
      \<and> uniqueSubs (recordAll xs initial) s = None
      \<and> uniqueSubs (snd (main cfg e sched ks)) s = None
      \<and> (rangeOrder (uniqueSubs (snd (main cfg e sched ks))) ks \<longrightarrow> s \<notin> set ks)"
    by (intro conjI)
  qed
next
  show "domain cfg = ''example.com'' \<and> proxyURL cfg = []
       \<and> apiKeySecurityTrails cfg = [] \<and> apiKeyShodan cfg = [] \<and> apiKeyVirusTotal cfg = []
       \<and> httpDo e CrtSh 0 = Responded resp \<and> StatusCode resp = 200
       \<and> parseCrtSh (Body resp) =
           [''sub1.example.com'', ''sub2.example.com'', ''*.example.com'', ''sub1.example.com'']
       \<longrightarrow> fst (main cfg e sched ks) = Completed
         \<and> dom (uniqueSubs (snd (main cfg e sched ks))) = {''sub1.example.com'', ''sub2.example.com''}"
    by (rule impI, elim conjE) (rule crtsh_only_scenario)
qed

theorem wildcard_never_reported_witness:
  "uniqueSubs (addSubdomain ''*.example.com'' initial) = uniqueSubs initial
   \<and> uniqueSubs (recordAll [''*.example.com'', ''a.example.com'', ''*.example.com''] initial)
        ''*.example.com'' = None
   \<and> uniqueSubs (snd (main
        \<lparr>domain = ''example.com'', proxyURL = [], apiKeySecurityTrails = [],
           apiKeyShodan = [], apiKeyVirusTotal = []\<rparr>
        \<lparr>urlParse = Inr, dialTimeout = (\<lambda>host. None),
           httpDo = (\<lambda>src i. Responded \<lparr>StatusCode = 200, Body = Some
             (VSlice [VMap [(''name_value'', VString ''sub1.example.com'')],
                      VMap [(''name_value'', VString ''sub2.example.com'')],
                      VMap [(''name_value'', VString ''*.example.com'')],
                      VMap [(''name_value'', VString ''sub1.example.com'')]])\<rparr>)\<rparr>
        [VirusTotal, CrtSh] [''sub2.example.com'', ''sub1.example.com''])) ''*.example.com'' = None
   \<and> ''*.example.com'' \<notin> set [''sub2.example.com'', ''sub1.example.com'']
   \<and> fst (main
        \<lparr>domain = ''example.com'', proxyURL = [], apiKeySecurityTrails = [],
           apiKeyShodan = [], apiKeyVirusTotal = []\<rparr>
        \<lparr>urlParse = Inr, dialTimeout = (\<lambda>host. None),
           httpDo = (\<lambda>src i. Responded \<lparr>StatusCode = 200, Body = Some
             (VSlice [VMap [(''name_value'', VString ''sub1.example.com'')],
                      VMap [(''name_value'', VString ''sub2.example.com'')],
                      VMap [(''name_value'', VString ''*.example.com'')],
                      VMap [(''name_value'', VString ''sub1.example.com'')]])\<rparr>)\<rparr>
        [VirusTotal, CrtSh] [''sub2.example.com'', ''sub1.example.com'']) = Completed
   \<and> dom (uniqueSubs (snd (main
        \<lparr>domain = ''example.com'', proxyURL = [], apiKeySecurityTrails = [],
           apiKeyShodan = [], apiKeyVirusTotal = []\<rparr>
        \<lparr>urlParse = Inr, dialTimeout = (\<lambda>host. None),
           httpDo = (\<lambda>src i. Responded \<lparr>StatusCode = 200, Body = Some
             (VSlice [VMap [(''name_value'', VString ''sub1.example.com'')],
                      VMap [(''name_value'', VString ''sub2.example.com'')],
                      VMap [(''name_value'', VString ''*.example.com'')],
                      VMap [(''name_value'', VString ''sub1.example.com'')]])\<rparr>)\<rparr>
        [VirusTotal, CrtSh] [''sub2.example.com'', ''sub1.example.com''])))
       = {''sub1.example.com'', ''sub2.example.com''}"
proof -
  let ?resp = "\<lparr>StatusCode = 200, Body = Some
             (VSlice [VMap [(''name_value'', VString ''sub1.example.com'')],
                      VMap [(''name_value'', VString ''sub2.example.com'')],
                      VMap [(''name_value'', VString ''*.example.com'')],
                      VMap [(''name_value'', VString ''sub1.example.com'')]])\<rparr>"
  let ?cfg = "\<lparr>domain = ''example.com'', proxyURL = [], apiKeySecurityTrails = [],
           apiKeyShodan = [], apiKeyVirusTotal = []\<rparr>"
  let ?e = "\<lparr>urlParse = Inr, dialTimeout = (\<lambda>host. None), httpDo = (\<lambda>src i. Responded ?resp)\<rparr>"
  let ?ks = "[''sub2.example.com'', ''sub1.example.com'']"
  note t = wildcard_never_reported [of "''*.example.com''" initial
      "[''*.example.com'', ''a.example.com'', ''*.example.com'']" ?cfg ?e "[VirusTotal, CrtSh]" ?ks ?resp]
  have w: "containsWildcard ''*.example.com''"
    by (simp add: containsWildcard_def)
  have p: "parseCrtSh (Body ?resp) =
      [''sub1.example.com'', ''sub2.example.com'', ''*.example.com'', ''sub1.example.com'']"
    by (simp add: parseCrtSh_def lookup_def)
  have run: "fst (main ?cfg ?e [VirusTotal, CrtSh] ?ks) = Completed
      \<and> dom (uniqueSubs (snd (main ?cfg ?e [VirusTotal, CrtSh] ?ks)))
          = {''sub1.example.com'', ''sub2.example.com''}"
    using t p by simp
  then have r: "rangeOrder (uniqueSubs (snd (main ?cfg ?e [VirusTotal, CrtSh] ?ks))) ?ks"
    by (auto simp: rangeOrder_def)
  from t w r run show ?thesis
    by (intro conjI) simp_all
qed

text \<open>
  C4. \<^verbatim>\<open>fetchWithRetries\<close> calls \<^verbatim>\<open>httpClient.Do\<close> at most \<open>retryLimit = 3\<close> times.
  If attempt \<open>k\<close> is the first to return no error and status 200, its response is
  returned with a nil error and the attempts made are exactly \<open>0, \<dots>, k\<close>: none
  follows it. In particular, when the first two attempts fail (a transport error or
  another status) and the third succeeds, the result is the third response, after
  three calls and two sleeps.
\<close>

theorem bounded_retry:
  "length (requests (snd (fetchWithRetries do))) \<le> retryLimit
   \<and> retryLimit = 3
   \<and> (k < retryLimit \<and> (\<forall>j<k. \<not> success (do j)) \<and> do k = Responded resp \<and> StatusCode resp = 200
        \<longrightarrow> fst (fetchWithRetries do) = (Some resp, None)
          \<and> requests (snd (fetchWithRetries do)) = [0..<Suc k])
   \<and> (\<not> success (do 0) \<and> \<not> success (do 1) \<and> do 2 = Responded resp \<and> StatusCode resp = 200
        \<longrightarrow> fetchWithRetries do = ((Some resp, None), [HttpDo 0, Sleep, HttpDo 1, Sleep, HttpDo 2]))"
proof -
  have bound: "length (requests (snd (fetchWithRetries do))) \<le> retryLimit"
    by (cases do rule: fetchWithRetries_cases) (simp_all add: requests_rounds)
  have first: "fst (fetchWithRetries do) = (Some resp, None)
          \<and> requests (snd (fetchWithRetries do)) = [0..<Suc k]"
    if "k < retryLimit" "\<forall>j<k. \<not> success (do j)" "do k = Responded resp" "StatusCode resp = 200"
    using fetchWithRetries_success [OF that] by (simp add: requests_rounds)
  have third: "fetchWithRetries do = ((Some resp, None), [HttpDo 0, Sleep, HttpDo 1, Sleep, HttpDo 2])"
    if "\<not> success (do 0)" "\<not> success (do 1)" "do 2 = Responded resp" "StatusCode resp = 200"
  proof -
    have "\<forall>j<2. \<not> success (do j)"
      using that(1,2) by (auto simp: less_Suc_eq numeral_2_eq_2)
    from fetchWithRetries_success [of 2 do resp, OF _ this that(3,4)]
    show ?thesis
      by (simp add: retryLimit_def rounds_def upt_conv_Cons)
  qed
  from bound first third show ?thesis
    by (simp add: retryLimit_def)
qed

theorem bounded_retry_witness:
  "fetchWithRetries (\<lambda>i. if i < 2 then Failed ''timeout'' else Responded \<lparr>StatusCode = 200, Body = Some VNil\<rparr>)
     = ((Some \<lparr>StatusCode = 200, Body = Some VNil\<rparr>, None), [HttpDo 0, Sleep, HttpDo 1, Sleep, HttpDo 2])
   \<and> requests (snd (fetchWithRetries (\<lambda>i. if i < 2 then Failed ''timeout'' else Responded \<lparr>StatusCode = 200, Body = Some VNil\<rparr>))) = [0, 1, 2]"
  using bounded_retry [of "\<lambda>i. if i < 2 then Failed ''timeout'' else Responded \<lparr>StatusCode = 200, Body = Some VNil\<rparr>"
      2 "\<lparr>StatusCode = 200, Body = Some VNil\<rparr>"]
  by (simp add: retryLimit_def upt_conv_Cons)

text \<open>
  C5 describes what the code is meant to do and does not do. The adapters without a
  key behave as the claim says (lemma \<open>disabled_adapter_idle\<close>): a notice,
  \<^verbatim>\<open>wg.Done()\<close>, and nothing else. But the run does not always complete. With no key
  at all, the one source left is the certificate-transparency search; when it answers
  503 to each of the three attempts, \<^verbatim>\<open>fetchWithRetries\<close> returns a nil response with
  a nil error, \<^verbatim>\<open>fetchFromCrtSh\<close> dereferences it, and under every schedule the
  process dies of the panic, with status 2. This is the defect of C2, met here in the
  configuration without keys.
\<close>

theorem basic_mode_crashes_on_status:
  "adapters
      \<lparr>domain = ''example.com'', proxyURL = [], apiKeySecurityTrails = [],
         apiKeyShodan = [], apiKeyVirusTotal = []\<rparr>
      \<lparr>urlParse = Inr, dialTimeout = (\<lambda>host. None),
         httpDo = (\<lambda>src i. Responded \<lparr>StatusCode = 503, Body = None\<rparr>)\<rparr>
      SecurityTrails
     = [Println ''SecurityTrails not configured. Skipping results.'', WgDone]
   \<and> adapters
      \<lparr>domain = ''example.com'', proxyURL = [], apiKeySecurityTrails = [],
         apiKeyShodan = [], apiKeyVirusTotal = []\<rparr>
      \<lparr>urlParse = Inr, dialTimeout = (\<lambda>host. None),
         httpDo = (\<lambda>src i. Responded \<lparr>StatusCode = 503, Body = None\<rparr>)\<rparr>
      Shodan
     = [Println ''Shodan not configured. Skipping results.'', WgDone]
   \<and> adapters
      \<lparr>domain = ''example.com'', proxyURL = [], apiKeySecurityTrails = [],
         apiKeyShodan = [], apiKeyVirusTotal = []\<rparr>
      \<lparr>urlParse = Inr, dialTimeout = (\<lambda>host. None),
         httpDo = (\<lambda>src i. Responded \<lparr>StatusCode = 503, Body = None\<rparr>)\<rparr>
      VirusTotal
     = [Println ''VirusTotal not configured. Skipping results.'', WgDone]
   \<and> adapters
      \<lparr>domain = ''example.com'', proxyURL = [], apiKeySecurityTrails = [],
         apiKeyShodan = [], apiKeyVirusTotal = []\<rparr>
      \<lparr>urlParse = Inr, dialTimeout = (\<lambda>host. None),
         httpDo = (\<lambda>src i. Responded \<lparr>StatusCode = 503, Body = None\<rparr>)\<rparr>
      CrtSh
     = [HttpDo 0, Sleep, HttpDo 1, Sleep, HttpDo 2, Sleep, NilDeref]
   \<and> fst (main
      \<lparr>domain = ''example.com'', proxyURL = [], apiKeySecurityTrails = [],
         apiKeyShodan = [], apiKeyVirusTotal = []\<rparr>
      \<lparr>urlParse = Inr, dialTimeout = (\<lambda>host. None),
         httpDo = (\<lambda>src i. Responded \<lparr>StatusCode = 503, Body = None\<rparr>)\<rparr>
      sched ks) = Crashed
   \<and> exitStatus (fst (main
      \<lparr>domain = ''example.com'', proxyURL = [], apiKeySecurityTrails = [],
         apiKeyShodan = [], apiKeyVirusTotal = []\<rparr>
      \<lparr>urlParse = Inr, dialTimeout = (\<lambda>host. None),
         httpDo = (\<lambda>src i. Responded \<lparr>StatusCode = 503, Body = None\<rparr>)\<rparr>
      sched ks)) = 2"
proof -
  let ?cfg = "\<lparr>domain = ''example.com'', proxyURL = [], apiKeySecurityTrails = [],
         apiKeyShodan = [], apiKeyVirusTotal = []\<rparr>"
  let ?e = "\<lparr>urlParse = Inr, dialTimeout = (\<lambda>host. None),
         httpDo = (\<lambda>src i. Responded \<lparr>StatusCode = 503, Body = None\<rparr>)\<rparr>"
  have st: "adapters ?cfg ?e SecurityTrails
      = [Println ''SecurityTrails not configured. Skipping results.'', WgDone]"
    by (simp add: adapters_def fetchFromSecurityTrails_def)
  have sh: "adapters ?cfg ?e Shodan = [Println ''Shodan not configured. Skipping results.'', WgDone]"
    by (simp add: adapters_def fetchFromShodan_def)
  have vt: "adapters ?cfg ?e VirusTotal
      = [Println ''VirusTotal not configured. Skipping results.'', WgDone]"
    by (simp add: adapters_def fetchFromVirusTotal_def)
  have r: "rounds 0 retryLimit = [HttpDo 0, Sleep, HttpDo 1, Sleep, HttpDo 2, Sleep]"
    by (simp add: rounds_def retryLimit_def upt_conv_Cons)
  have f: "fetchWithRetries (\<lambda>i. Responded \<lparr>StatusCode = 503, Body = None\<rparr>)
      = ((None, None), [HttpDo 0, Sleep, HttpDo 1, Sleep, HttpDo 2, Sleep])"
    using fetchWithRetries_exhausted [of "\<lambda>i. Responded \<lparr>StatusCode = 503, Body = None\<rparr>"] r
    by simp
  have crt: "adapters ?cfg ?e CrtSh = [HttpDo 0, Sleep, HttpDo 1, Sleep, HttpDo 2, Sleep, NilDeref]"
    by (simp add: adapters_def fetchFromCrtSh_def fetchThen_def f)
  have "NilDeref \<in> set (adapters ?cfg ?e CrtSh)"
    unfolding crt by simp
  moreover have "fst (configureHTTPClient ?e (proxyURL ?cfg) initial)
      = Inr \<lparr>Timeout = defaultTimeout, Proxy = None\<rparr>"
    by (simp add: configureHTTPClient_def)
  moreover have "domain ?cfg \<noteq> []" by simp
  ultimately have c: "fst (main ?cfg ?e sched ks) = Crashed"
    by (intro main_crashed)
  then have x: "exitStatus (fst (main ?cfg ?e sched ks)) = 2"
    by simp
  from st sh vt crt c x show ?thesis by (intro conjI)
qed

text \<open>
  C6 describes what the code is meant to do and does not do for the SecurityTrails and
  Shodan adapters. They format every element of the array \<open>subdomains\<close> with the verb
  \<^verbatim>\<open>%s\<close>, without the test \<^verbatim>\<open>.(string)\<close> that the certificate-transparency and
  VirusTotal adapters make. An element that is no string (here \<^verbatim>\<open>null\<close>) is recorded
  as the text that \<^verbatim>\<open>fmt\<close> prints for a bad verb, followed by the domain, and ends up
  as a key of \<^verbatim>\<open>uniqueSubs\<close>; the same element in the other two adapters yields
  nothing.
\<close>

theorem non_string_label_is_recorded:
  "parseLabels ''example.com'' (Some (VMap [(''subdomains'', VSlice [VNil])]))
     = [''%!s(<nil>).example.com'']
   \<and> fetchFromSecurityTrails ''key'' ''example.com''
        (\<lambda>i. Responded \<lparr>StatusCode = 200, Body = Some (VMap [(''subdomains'', VSlice [VNil])])\<rparr>)
     = [HttpDo 0, AddSubdomain ''%!s(<nil>).example.com'', WgDone]
   \<and> fetchFromShodan ''key'' ''example.com''
        (\<lambda>i. Responded \<lparr>StatusCode = 200, Body = Some (VMap [(''subdomains'', VSlice [VNil])])\<rparr>)
     = [HttpDo 0, AddSubdomain ''%!s(<nil>).example.com'', WgDone]
   \<and> uniqueSubs (addSubdomain ''%!s(<nil>).example.com'' initial) ''%!s(<nil>).example.com''
     = Some ()
   \<and> parseData (Some (VMap [(''data'', VSlice [VNil])])) = []
   \<and> parseCrtSh (Some (VSlice [VMap [(''name_value'', VNil)]])) = []"
proof -
  let ?resp = "\<lparr>StatusCode = 200, Body = Some (VMap [(''subdomains'', VSlice [VNil])])\<rparr>"
  have p: "parseLabels ''example.com'' (Some (VMap [(''subdomains'', VSlice [VNil])]))
     = [''%!s(<nil>).example.com'']"
    by (simp add: parseLabels_def lookup_def)
  have f: "fetchWithRetries (\<lambda>i. Responded ?resp) = ((Some ?resp, None), [HttpDo 0])"
    using fetchWithRetries_success [of 0 "\<lambda>i. Responded ?resp" ?resp]
    by (simp add: retryLimit_def)
  have t: "fetchThen name (\<lambda>i. Responded ?resp) (parseLabels ''example.com'')
      = [HttpDo 0, AddSubdomain ''%!s(<nil>).example.com'', WgDone]" for name
    by (simp add: fetchThen_def f p)
  have a: "fetchFromSecurityTrails ''key'' ''example.com'' (\<lambda>i. Responded ?resp)
     = [HttpDo 0, AddSubdomain ''%!s(<nil>).example.com'', WgDone]"
    by (simp add: fetchFromSecurityTrails_def t)
  have b: "fetchFromShodan ''key'' ''example.com'' (\<lambda>i. Responded ?resp)
     = [HttpDo 0, AddSubdomain ''%!s(<nil>).example.com'', WgDone]"
    by (simp add: fetchFromShodan_def t)
  have c: "uniqueSubs (addSubdomain ''%!s(<nil>).example.com'' initial) ''%!s(<nil>).example.com''
     = Some ()"
    by (simp add: uniqueSubs_addSubdomain containsWildcard_def)
  have d: "parseData (Some (VMap [(''data'', VSlice [VNil])])) = []"
    by (simp add: parseData_def lookup_def)
  have e: "parseCrtSh (Some (VSlice [VMap [(''name_value'', VNil)]])) = []"
    by (simp add: parseCrtSh_def lookup_def)
  from p a b c d e show ?thesis by (intro conjI)
qed

text \<open>
  C7. With a proxy URL that is not empty and that \<^verbatim>\<open>url.Parse\<close> rejects, or whose
  host \<^verbatim>\<open>net.DialTimeout\<close> cannot reach, \<^verbatim>\<open>configureHTTPClient\<close> ends the process
  with status 1. No run of \<^verbatim>\<open>main\<close> then issues a request of any adapter, none
  completes and none prints the header of the final listing; for a target domain (the
  specification's invariant: not empty) the run ends by \<^verbatim>\<open>os.Exit(1)\<close>, a status that
  is not zero. With an empty proxy URL \<^verbatim>\<open>configureHTTPClient\<close> returns a client and
  leaves the state as it is: nothing is dialled and nothing printed.
\<close>

theorem invalid_proxy_is_fatal:
  "(proxyURL cfg \<noteq> []
      \<and> (isl (urlParse e (proxyURL cfg))
           \<or> (\<exists>host. urlParse e (proxyURL cfg) = Inr host \<and> dialTimeout e host \<noteq> None))
      \<longrightarrow> fst (configureHTTPClient e (proxyURL cfg) st) = Inl 1
        \<and> fst (main cfg e sched ks) \<noteq> Completed
        \<and> (\<forall>src i. Request src i \<notin> set (network (snd (main cfg e sched ks))))
        \<and> ''=== Unique Subdomains Found ==='' \<notin> set (stdout (snd (main cfg e sched ks)))
        \<and> (domain cfg \<noteq> []
             \<longrightarrow> fst (main cfg e sched ks) = Exited 1 \<and> exitStatus (fst (main cfg e sched ks)) \<noteq> 0))
   \<and> configureHTTPClient e [] st = (Inr \<lparr>Timeout = defaultTimeout, Proxy = None\<rparr>, st)"
proof (rule conjI)
  show "configureHTTPClient e [] st = (Inr \<lparr>Timeout = defaultTimeout, Proxy = None\<rparr>, st)"
    by (simp add: configureHTTPClient_def)
next
  show "proxyURL cfg \<noteq> []
      \<and> (isl (urlParse e (proxyURL cfg))
           \<or> (\<exists>host. urlParse e (proxyURL cfg) = Inr host \<and> dialTimeout e host \<noteq> None))
      \<longrightarrow> fst (configureHTTPClient e (proxyURL cfg) st) = Inl 1
        \<and> fst (main cfg e sched ks) \<noteq> Completed
        \<and> (\<forall>src i. Request src i \<notin> set (network (snd (main cfg e sched ks))))
        \<and> ''=== Unique Subdomains Found ==='' \<notin> set (stdout (snd (main cfg e sched ks)))
        \<and> (domain cfg \<noteq> []
             \<longrightarrow> fst (main cfg e sched ks) = Exited 1 \<and> exitStatus (fst (main cfg e sched ks)) \<noteq> 0)"
  proof (rule impI, elim conjE)
    assume p: "proxyURL cfg \<noteq> []"
      and f: "isl (urlParse e (proxyURL cfg))
           \<or> (\<exists>host. urlParse e (proxyURL cfg) = Inr host \<and> dialTimeout e host \<noteq> None)"
    note fatal = configureHTTPClient_fatal [OF p f]
    obtain st0 where conf: "configureHTTPClient e (proxyURL cfg) initial = (Inl 1, st0)"
      using fatal [of initial] by (cases "configureHTTPClient e (proxyURL cfg) initial") simp
    from fatal [of initial] conf obtain l where out: "stdout st0 = [''Error '' @ l]"
      by (auto simp: initial_def)
    have m: "main cfg e sched ks =
        (if domain cfg = []
         then (Usage, println ''Usage: go run main.go -domain example.com'' initial)
         else (Exited 1, st0))"
      using conf by (simp add: main_def)
    have c: "fst (main cfg e sched ks) \<noteq> Completed"
      by (simp add: m)
    have n: "\<forall>src i. Request src i \<notin> set (network (snd (main cfg e sched ks)))"
      using main_network [of _ _ cfg e sched ks] fatal [of initial] by auto
    have h: "''=== Unique Subdomains Found ==='' \<notin> set (stdout (snd (main cfg e sched ks)))"
      by (simp add: m out println_def initial_def)
    have x: "domain cfg \<noteq> []
        \<longrightarrow> fst (main cfg e sched ks) = Exited 1 \<and> exitStatus (fst (main cfg e sched ks)) \<noteq> 0"
      by (simp add: m)
    from fatal [of st] c n h x
    show "fst (configureHTTPClient e (proxyURL cfg) st) = Inl 1
        \<and> fst (main cfg e sched ks) \<noteq> Completed
        \<and> (\<forall>src i. Request src i \<notin> set (network (snd (main cfg e sched ks))))
        \<and> ''=== Unique Subdomains Found ==='' \<notin> set (stdout (snd (main cfg e sched ks)))
        \<and> (domain cfg \<noteq> []
             \<longrightarrow> fst (main cfg e sched ks) = Exited 1 \<and> exitStatus (fst (main cfg e sched ks)) \<noteq> 0)"
      by (intro conjI) simp_all
  qed
qed

theorem invalid_proxy_is_fatal_witness:
  "main \<lparr>domain = ''example.com'', proxyURL = ''http://127.0.0.1:8080'', apiKeySecurityTrails = [],
          apiKeyShodan = [], apiKeyVirusTotal = []\<rparr>
        \<lparr>urlParse = (\<lambda>u. Inr ''127.0.0.1:8080''), dialTimeout = (\<lambda>host. Some ''connection refused''),
          httpDo = (\<lambda>src i. Responded \<lparr>StatusCode = 200, Body = Some VNil\<rparr>)\<rparr>
        [CrtSh] []
     = (Exited 1,
        \<lparr>uniqueSubs = Map.empty, wg = 0,
         stdout = [''Error connecting to the proxy: connection refused''],
         network = [Dial ''127.0.0.1:8080'']\<rparr>)
   \<and> fst (main \<lparr>domain = ''example.com'', proxyURL = ''::'', apiKeySecurityTrails = [],
          apiKeyShodan = [], apiKeyVirusTotal = []\<rparr>
        \<lparr>urlParse = (\<lambda>u. Inl ''missing protocol scheme''), dialTimeout = (\<lambda>host. None),
          httpDo = (\<lambda>src i. Responded \<lparr>StatusCode = 200, Body = Some VNil\<rparr>)\<rparr>
        [CrtSh] []) = Exited 1
   \<and> configureHTTPClient
        \<lparr>urlParse = (\<lambda>u. Inl ''missing protocol scheme''), dialTimeout = (\<lambda>host. Some ''connection refused''),
          httpDo = (\<lambda>src i. Responded \<lparr>StatusCode = 200, Body = Some VNil\<rparr>)\<rparr> [] initial
     = (Inr \<lparr>Timeout = defaultTimeout, Proxy = None\<rparr>, initial)"
proof -
  let ?cfg = "\<lparr>domain = ''example.com'', proxyURL = ''http://127.0.0.1:8080'', apiKeySecurityTrails = [],
          apiKeyShodan = [], apiKeyVirusTotal = []\<rparr>"
  let ?e = "\<lparr>urlParse = (\<lambda>u. Inr ''127.0.0.1:8080''), dialTimeout = (\<lambda>host. Some ''connection refused''),
          httpDo = (\<lambda>src i. Responded \<lparr>StatusCode = 200, Body = Some VNil\<rparr>)\<rparr>"
  let ?cfg' = "\<lparr>domain = ''example.com'', proxyURL = ''::'', apiKeySecurityTrails = [],
          apiKeyShodan = [], apiKeyVirusTotal = []\<rparr>"
  let ?e' = "\<lparr>urlParse = (\<lambda>u. Inl ''missing protocol scheme''), dialTimeout = (\<lambda>host. None),
          httpDo = (\<lambda>src i. Responded \<lparr>StatusCode = 200, Body = Some VNil\<rparr>)\<rparr>"
  let ?e'' = "\<lparr>urlParse = (\<lambda>u. Inl ''missing protocol scheme''), dialTimeout = (\<lambda>host. Some ''connection refused''),
          httpDo = (\<lambda>src i. Responded \<lparr>StatusCode = 200, Body = Some VNil\<rparr>)\<rparr>"
  have a: "fst (main ?cfg ?e [CrtSh] []) = Exited 1"
    using invalid_proxy_is_fatal [of ?cfg ?e initial "[CrtSh]" "[]"] by simp
  have b: "snd (main ?cfg ?e [CrtSh] []) =
        \<lparr>uniqueSubs = Map.empty, wg = 0,
         stdout = [''Error connecting to the proxy: connection refused''],
         network = [Dial ''127.0.0.1:8080'']\<rparr>"
    by (simp add: main_def configureHTTPClient_def initial_def println_def)
  have c: "fst (main ?cfg' ?e' [CrtSh] []) = Exited 1"
    using invalid_proxy_is_fatal [of ?cfg' ?e' initial "[CrtSh]" "[]"] by simp
  have d: "configureHTTPClient ?e'' [] initial = (Inr \<lparr>Timeout = defaultTimeout, Proxy = None\<rparr>, initial)"
    using invalid_proxy_is_fatal [of ?cfg ?e'' initial "[]" "[]"] by simp
  from a b c d show ?thesis
    by (simp add: prod_eq_iff)
qed

text \<open>
  C8. When the SecurityTrails or the Shodan adapter has its key and its fetch succeeds
  with an object whose member \<open>subdomains\<close> is an array of labels (strings), the
  strings it passes to \<^verbatim>\<open>addSubdomain\<close> are, label by label and in the order of the
  array, \<open>label.D\<close> for the target domain \<open>D\<close>; such a string is never the label
  itself.
\<close>

theorem labels_are_suffixed:
  assumes "apiKey \<noteq> []"
    and "k < retryLimit" and "\<forall>j<k. \<not> success (do j)"
    and "do k = Responded resp" and "StatusCode resp = 200"
    and "decodeObject (Body resp) = Some result"
    and "lookup result ''subdomains'' = Some (VSlice (map VString labels))"
  shows "fetchFromSecurityTrails apiKey D do =
           rounds 0 k @ [HttpDo k] @ map (\<lambda>label. AddSubdomain (label @ ''.'' @ D)) labels @ [WgDone]
    \<and> fetchFromShodan apiKey D do =
           rounds 0 k @ [HttpDo k] @ map (\<lambda>label. AddSubdomain (label @ ''.'' @ D)) labels @ [WgDone]
    \<and> findings (fetchFromSecurityTrails apiKey D do) = map (\<lambda>label. label @ ''.'' @ D) labels
    \<and> findings (fetchFromShodan apiKey D do) = map (\<lambda>label. label @ ''.'' @ D) labels
    \<and> (\<forall>label. label @ ''.'' @ D \<noteq> label)"
proof -
  have f: "fetchWithRetries do = ((Some resp, None), rounds 0 k @ [HttpDo k])"
    using assms(2-5) by (rule fetchWithRetries_success)
  have p: "parseLabels D (Body resp) = map (\<lambda>label. label @ ''.'' @ D) labels"
    using assms(6,7) by (simp add: parseLabels_def comp_def)
  have t: "fetchThen name do (parseLabels D) =
      rounds 0 k @ [HttpDo k] @ map (\<lambda>label. AddSubdomain (label @ ''.'' @ D)) labels @ [WgDone]"
    for name
    by (simp add: fetchThen_def f p comp_def)
  have a: "fetchFromSecurityTrails apiKey D do =
      rounds 0 k @ [HttpDo k] @ map (\<lambda>label. AddSubdomain (label @ ''.'' @ D)) labels @ [WgDone]"
    using assms(1) by (simp add: fetchFromSecurityTrails_def t)
  have b: "fetchFromShodan apiKey D do =
      rounds 0 k @ [HttpDo k] @ map (\<lambda>label. AddSubdomain (label @ ''.'' @ D)) labels @ [WgDone]"
    using assms(1) by (simp add: fetchFromShodan_def t)
  have m: "findings (map (\<lambda>label. AddSubdomain (label @ ''.'' @ D)) labels)
      = map (\<lambda>label. label @ ''.'' @ D) labels"
    by (induction labels) simp_all
  have c: "findings (fetchFromSecurityTrails apiKey D do) = map (\<lambda>label. label @ ''.'' @ D) labels"
    unfolding a using m by simp
  have d: "findings (fetchFromShodan apiKey D do) = map (\<lambda>label. label @ ''.'' @ D) labels"
    unfolding b using m by simp
  have e: "\<forall>label. label @ ''.'' @ D \<noteq> label"
    by simp
  from a b c d e show ?thesis by (intro conjI)
qed

theorem labels_are_suffixed_witness:
  "fetchFromSecurityTrails ''key'' ''example.com''
      (\<lambda>i. Responded \<lparr>StatusCode = 200, Body = Some
         (VMap [(''subdomains'', VSlice [VString ''mail'', VString ''vpn''])])\<rparr>)
     = [HttpDo 0, AddSubdomain ''mail.example.com'', AddSubdomain ''vpn.example.com'', WgDone]
   \<and> findings (fetchFromShodan ''key'' ''example.com''
      (\<lambda>i. Responded \<lparr>StatusCode = 200, Body = Some
         (VMap [(''subdomains'', VSlice [VString ''mail'', VString ''vpn''])])\<rparr>))
     = [''mail.example.com'', ''vpn.example.com'']"
proof -
  let ?resp = "\<lparr>StatusCode = 200, Body = Some
         (VMap [(''subdomains'', VSlice [VString ''mail'', VString ''vpn''])])\<rparr>"
  have l: "lookup [(''subdomains'', VSlice [VString ''mail'', VString ''vpn''])] ''subdomains''
      = Some (VSlice (map VString [''mail'', ''vpn'']))"
    by (simp add: lookup_def)
  have k: "''key'' \<noteq> []" "(0::nat) < retryLimit" "\<forall>j<0::nat. \<not> success (Responded ?resp)"
    by (simp_all add: retryLimit_def)
  have d: "decodeObject (Body ?resp)
      = Some [(''subdomains'', VSlice [VString ''mail'', VString ''vpn''])]"
    by simp
  from labels_are_suffixed [of "''key''" 0 "\<lambda>i. Responded ?resp" ?resp
      "[(''subdomains'', VSlice [VString ''mail'', VString ''vpn''])]" "[''mail'', ''vpn'']"
      "''example.com''", OF k(1,2) _ refl _ d l]
  show ?thesis by (simp add: rounds_def)
qed




text \<open>
  C10. The wildcard filter looks at the first byte only. A finding with \<open>*\<close> at a later
  position and another first byte is not a wildcard for \<^verbatim>\<open>containsWildcard\<close>;
  \<^verbatim>\<open>addSubdomain\<close> inserts it, it is a key of \<^verbatim>\<open>uniqueSubs\<close> after any sequence of
  calls that contains it, and every order in which the final listing ranges over the
  map prints it.
\<close>

theorem first_character_only:
  assumes "0 < i" and "i < length s" and "s ! i = CHR ''*''" and "s ! 0 \<noteq> CHR ''*''"
  shows "\<not> containsWildcard s
    \<and> uniqueSubs (addSubdomain s st) s = Some ()
    \<and> s \<in> dom (uniqueSubs (recordAll (xs @ s # ys) st))
    \<and> (rangeOrder (uniqueSubs (recordAll (xs @ s # ys) st)) ks \<longrightarrow> s \<in> set ks)"
proof -
  have w: "\<not> containsWildcard s"
    using assms by (simp add: containsWildcard_def)
  have ins: "uniqueSubs (addSubdomain s st) s = Some ()"
    using w by (simp add: uniqueSubs_addSubdomain)
  have mem: "s \<in> dom (uniqueSubs (recordAll (xs @ s # ys) st))"
    unfolding dom_recordAll using w by simp
  have "rangeOrder (uniqueSubs (recordAll (xs @ s # ys) st)) ks \<longrightarrow> s \<in> set ks"
    using mem by (simp add: rangeOrder_def)
  with w ins mem show ?thesis by blast
qed

theorem first_character_only_witness:
  "\<not> containsWildcard ''sub.*.example.com''
   \<and> uniqueSubs (addSubdomain ''sub.*.example.com'' initial) ''sub.*.example.com'' = Some ()
   \<and> ''sub.*.example.com'' \<in> dom (uniqueSubs (recordAll [''*.example.com'', ''sub.*.example.com''] initial))
   \<and> ''sub.*.example.com'' \<in> set [''sub.*.example.com'']"
proof -
  have r: "rangeOrder (uniqueSubs (recordAll ([''*.example.com''] @ ''sub.*.example.com'' # []) initial))
             [''sub.*.example.com'']"
    by (simp add: rangeOrder_def dom_addSubdomain containsWildcard_def initial_def)
  have "(0::nat) < 4" and "4 < length ''sub.*.example.com''"
    and "''sub.*.example.com'' ! 4 = CHR ''*''" and "''sub.*.example.com'' ! 0 \<noteq> CHR ''*''"
    by simp_all
  from first_character_only [OF this, of initial "[''*.example.com'']" "[]" "[''sub.*.example.com'']"] r
  show ?thesis by (simp add: rangeOrder_def)
qed

end
